theory Spec2Isabelle
  imports Complex_Main "HOL-Library.Word"
begin

section \<open>Data model of the tenant campaign engine\<close>

text \<open>
  The development embeds the per-tenant campaign pipe of
  \<^verbatim>\<open>internal/manager/tenant_pipe.go\<close>, the instance loop, the worker and the campaign
  scan of \<^verbatim>\<open>internal/manager/tenant_factory.go\<close>, and the configuration loader of
  \<^verbatim>\<open>internal/core/tenant_core.go\<close>.
\<close>

subsection \<open>Campaigns and subscribers\<close>

text \<open>
  Modelled from the spec: the campaign status constants of the \<^verbatim>\<open>models\<close> package
  (\<^verbatim>\<open>models.CampaignStatusRunning\<close> and its siblings), which the source only imports.
\<close>

datatype campaign_status =
    CampaignStatusDraft
  | CampaignStatusScheduled
  | CampaignStatusRunning
  | CampaignStatusPaused
  | CampaignStatusFinished
  | CampaignStatusCancelled

text \<open>The fields of \<^verbatim>\<open>models.Campaign\<close> that the engine reads or writes.\<close>

record campaign =
  ID :: int
  Name :: string
  Messenger :: string
  Status :: campaign_status
  MediaIDs :: "int list"
  Attachments :: "string list"

record subscriber =
  sub_ID :: int
  sub_Email :: string

subsection \<open>The wait-group\<close>

text \<open>
  A \<^verbatim>\<open>sync.WaitGroup\<close> is kept as the number of \<^verbatim>\<open>Add(1)\<close> calls and the number of
  \<^verbatim>\<open>Done()\<close> calls made on it; the counter Go stores is their difference. \<^verbatim>\<open>Done()\<close>
  on a counter that is already zero panics.
\<close>

record waitgroup =
  adds :: nat
  dones :: nat

datatype fault = NegativeWaitGroupCounter | NotEnabled

definition wg_new :: waitgroup where
  "wg_new = \<lparr>adds = 0, dones = 0\<rparr>"

definition wg_counter :: "waitgroup \<Rightarrow> int" where
  "wg_counter w = int (adds w) - int (dones w)"

definition wg_Add :: "waitgroup \<Rightarrow> waitgroup" where
  "wg_Add w = w\<lparr>adds := Suc (adds w)\<rparr>"

definition wg_Done :: "waitgroup \<Rightarrow> fault + waitgroup" where
  "wg_Done w =
     (if wg_counter w \<le> 0 then Inl NegativeWaitGroupCounter
      else Inr (w\<lparr>dones := Suc (dones w)\<rparr>))"

subsection \<open>Configuration\<close>

text \<open>
  \<^verbatim>\<open>TenantConfig\<close> with its embedded \<^verbatim>\<open>Config\<close>. Durations are nanoseconds, as
  \<^verbatim>\<open>time.Duration\<close> is.
\<close>

record Config =
  BatchSize :: int
  Concurrency :: int
  MessageRate :: int
  MaxSendErrors :: int
  SlidingWindow :: bool
  SlidingWindowDuration :: int
  SlidingWindowRate :: int
  RequeueOnError :: bool
  FromEmail :: string
  IndividualTracking :: bool
  LinkTrackURL :: string
  UnsubURL :: string
  OptinURL :: string
  MessageURL :: string
  ViewTrackURL :: string
  ArchiveURL :: string
  RootURL :: string
  UnsubHeader :: bool
  ScanInterval :: int
  ScanCampaigns :: bool

record TenantConfig = Config +
  TenantID :: int
  TenantFromEmail :: string
  TenantSMTPHost :: string
  TenantSMTPPort :: int
  TenantSMTPUsername :: string
  TenantSMTPPassword :: string
  TenantSMTPTLS :: bool
  TenantSMTPSkipVerify :: bool
  TenantRootURL :: string
  TenantUnsubURL :: string
  TenantOptinURL :: string
  TenantMessageURL :: string
  TenantArchiveURL :: string
  TenantMaxBatchSize :: int
  TenantMaxConcurrency :: int
  TenantMessageRate :: int
  TenantMaxSendErrors :: int

subsection \<open>The pipe\<close>

text \<open>
  \<^verbatim>\<open>tenantPipe\<close>: the atomic counters keep their widths (\<^verbatim>\<open>atomic.Int64\<close> is read with
  \<open>sint\<close>, \<^verbatim>\<open>atomic.Uint64\<close> with \<open>unat\<close>); the rate counter is the number of
  \<^verbatim>\<open>Incr(1)\<close> calls it has received.
\<close>

record tenantPipe =
  tenantID :: int
  camp :: campaign
  rate :: nat
  wg :: waitgroup
  sent :: "64 word"
  lastID :: "64 word"
  errors :: "64 word"
  stopped :: bool
  withErrors :: bool

text \<open>\<^verbatim>\<open>tenantPipe.Stop\<close>\<close>

definition Stop :: "bool \<Rightarrow> tenantPipe \<Rightarrow> tenantPipe" where
  "Stop withErr tp =
     (if stopped tp then tp
      else (if withErr then tp\<lparr>withErrors := True\<rparr> else tp)\<lparr>stopped := True\<rparr>)"

text \<open>
  \<^verbatim>\<open>tenantPipe.OnError\<close>: \<^verbatim>\<open>int(count)\<close> reads the unsigned counter as a signed
  64-bit integer.
\<close>

definition OnError :: "TenantConfig \<Rightarrow> tenantPipe \<Rightarrow> tenantPipe" where
  "OnError cfg tp =
     (if TenantMaxSendErrors cfg < 1 then tp
      else
        let tp' = tp\<lparr>errors := errors tp + 1\<rparr>
        in if sint (errors tp') < TenantMaxSendErrors cfg then tp' else Stop True tp')"

subsection \<open>Cleanup\<close>

text \<open>
  The calls a pipe makes on the Store and on the notification callback, in order. A
  notification carries the tenant, the campaign id, the status and the reason
  (\<^verbatim>\<open>sendTenantNotif\<close>).
\<close>

datatype call =
    UpdateTenantCampaignCounts int int int int int
  | UpdateTenantCampaignStatus int int campaign_status
  | GetTenantCampaign int int
  | GetAttachment int
  | NextTenantCampaigns int "int list" "int list"
  | Notif int int campaign_status string

text \<open>
  \<^verbatim>\<open>tenantPipe.cleanup\<close>. An error returned by a Store update is only logged, so it does not
  change the calls made; \<open>fetched\<close> is the result of \<^verbatim>\<open>GetTenantCampaign\<close> (\<open>None\<close>
  when it fails).
\<close>

definition cleanup :: "campaign option \<Rightarrow> tenantPipe \<Rightarrow> call list" where
  "cleanup fetched tp =
     (let counts = UpdateTenantCampaignCounts (tenantID tp) (ID (camp tp)) 0
                     (sint (sent tp)) (sint (lastID tp))
      in if withErrors tp then
           [counts,
            UpdateTenantCampaignStatus (tenantID tp) (ID (camp tp)) CampaignStatusPaused,
            Notif (tenantID tp) (ID (camp tp)) CampaignStatusPaused ''Too many errors'']
         else if stopped tp then [counts]
         else
           (case fetched of
              None \<Rightarrow> [counts, GetTenantCampaign (tenantID tp) (ID (camp tp))]
            | Some c \<Rightarrow>
                if Status c = CampaignStatusRunning \<or> Status c = CampaignStatusScheduled then
                  [counts, GetTenantCampaign (tenantID tp) (ID (camp tp)),
                   UpdateTenantCampaignStatus (tenantID tp) (ID (camp tp)) CampaignStatusFinished,
                   Notif (tenantID tp) (ID c) CampaignStatusFinished '''']
                else
                  [counts, GetTenantCampaign (tenantID tp) (ID (camp tp)),
                   Notif (tenantID tp) (ID c) (Status c) '''']))"

fun is_status_update :: "call \<Rightarrow> bool" where
  "is_status_update (UpdateTenantCampaignStatus _ _ _) = True"
| "is_status_update _ = False"

fun is_notif :: "call \<Rightarrow> bool" where
  "is_notif (Notif _ _ _ _) = True"
| "is_notif _ = False"

subsection \<open>The worker\<close>

text \<open>
  One iteration of \<^verbatim>\<open>tenantInstanceManager.worker\<close> on a campaign message whose pipe is
  \<open>tp\<close>: \<open>numMsg\<close> is the worker's own count for the rate limit (the one-second sleep
  changes nothing else), \<open>pushErr\<close> says whether the Messenger's \<^verbatim>\<open>Push\<close> returned an
  error, \<open>s\<close> is the message's subscriber.
\<close>

definition worker :: "TenantConfig \<Rightarrow> bool \<Rightarrow> subscriber \<Rightarrow> int \<times> tenantPipe
    \<Rightarrow> fault + (int \<times> tenantPipe)" where
  "worker cfg pushErr s st =
     (case st of (numMsg, tp) \<Rightarrow>
        if stopped tp then
          (case wg_Done (wg tp) of
             Inl e \<Rightarrow> Inl e
           | Inr w \<Rightarrow> Inr (numMsg, tp\<lparr>wg := w\<rparr>))
        else
          let numMsg' = (if numMsg \<ge> TenantMessageRate cfg then 0 else numMsg) + 1
          in (case wg_Done (wg tp) of
                Inl e \<Rightarrow> Inl e
              | Inr w \<Rightarrow>
                  let tp1 = tp\<lparr>wg := w\<rparr>
                  in if pushErr then Inr (numMsg', OnError cfg tp1)
                     else
                       let id = (word_of_int (sub_ID s) :: 64 word);
                           tp2 = (if id > lastID tp1 then tp1\<lparr>lastID := id\<rparr> else tp1)
                       in Inr (numMsg', tp2\<lparr>rate := rate tp2 + 1, sent := sent tp2 + 1\<rparr>)))"

text \<open>
  The same iteration in the two parts that another goroutine can come between. First the
  worker checks the stopped flag, counts the message for the rate limit, pushes it and
  calls \<^verbatim>\<open>wg.Done()\<close>; the result says whether the message was pushed, that is, whether
  the second part is still to come. Then the worker records the outcome of the push on
  the pipe: \<^verbatim>\<open>OnError\<close>, or the watermark, the rate counter and the sent counter.
\<close>

definition workerTake :: "TenantConfig \<Rightarrow> int \<times> tenantPipe \<Rightarrow> fault + (int \<times> tenantPipe \<times> bool)" where
  "workerTake cfg st =
     (case st of (numMsg, tp) \<Rightarrow>
        if stopped tp then
          (case wg_Done (wg tp) of
             Inl e \<Rightarrow> Inl e
           | Inr w \<Rightarrow> Inr (numMsg, tp\<lparr>wg := w\<rparr>, False))
        else
          let numMsg' = (if numMsg \<ge> TenantMessageRate cfg then 0 else numMsg) + 1
          in (case wg_Done (wg tp) of
                Inl e \<Rightarrow> Inl e
              | Inr w \<Rightarrow> Inr (numMsg', tp\<lparr>wg := w\<rparr>, True)))"

definition workerFinish :: "TenantConfig \<Rightarrow> bool \<Rightarrow> subscriber \<Rightarrow> tenantPipe \<Rightarrow> tenantPipe" where
  "workerFinish cfg pushErr s tp =
     (if pushErr then OnError cfg tp
      else
        let id = (word_of_int (sub_ID s) :: 64 word);
            tp2 = (if id > lastID tp then tp\<lparr>lastID := id\<rparr> else tp)
        in tp2\<lparr>rate := rate tp2 + 1, sent := sent tp2 + 1\<rparr>)"

text \<open>
  Calls made on a pipe from outside the worker's own iteration: a \<^verbatim>\<open>Stop\<close> (manual, or
  from the error path) or an \<^verbatim>\<open>OnError\<close> of a delivery that was already in flight.
\<close>

datatype pipe_call = CallStop bool | CallOnError

fun run_call :: "TenantConfig \<Rightarrow> pipe_call \<Rightarrow> tenantPipe \<Rightarrow> tenantPipe" where
  "run_call cfg (CallStop b) tp = Stop b tp"
| "run_call cfg CallOnError tp = OnError cfg tp"

fun run_calls :: "TenantConfig \<Rightarrow> pipe_call list \<Rightarrow> tenantPipe \<Rightarrow> tenantPipe" where
  "run_calls cfg [] tp = tp"
| "run_calls cfg (c # cs) tp = run_calls cfg cs (run_call cfg c tp)"

text \<open>\<open>n\<close> delivery failures in a row reported to the pipe.\<close>

fun failures :: "TenantConfig \<Rightarrow> nat \<Rightarrow> tenantPipe \<Rightarrow> tenantPipe" where
  "failures cfg 0 tp = tp"
| "failures cfg (Suc n) tp = OnError cfg (failures cfg n tp)"

text \<open>
  A worker's iterations on messages of one pipe, one after the other: for each message,
  whether its push fails and its subscriber.
\<close>

fun workers :: "TenantConfig \<Rightarrow> (bool \<times> subscriber) list \<Rightarrow> int \<times> tenantPipe
    \<Rightarrow> fault + (int \<times> tenantPipe)" where
  "workers cfg [] st = Inr st"
| "workers cfg ((pushErr, s) # rest) st =
     (case worker cfg pushErr s st of Inl e \<Rightarrow> Inl e | Inr st' \<Rightarrow> workers cfg rest st')"

subsection \<open>The watermark update, one atomic operation at a time\<close>

text \<open>
  The worker's update of \<^verbatim>\<open>lastID\<close> is two atomic operations, a \<^verbatim>\<open>Load\<close> and, when the
  subscriber id is greater than the value loaded, a \<^verbatim>\<open>Store\<close>. A worker that is
  completing a message is its subscriber id and the value it has loaded, if any; a
  schedule names the worker that performs its next operation.
\<close>

datatype atomic_step = LoadLastID nat | StoreLastID nat

type_synonym completing = "64 word \<times> 64 word option"

fun watermark_step :: "atomic_step \<Rightarrow> 64 word \<times> completing list \<Rightarrow> 64 word \<times> completing list" where
  "watermark_step (LoadLastID i) (l, ws) =
     (if i < length ws then (l, ws[i := (fst (ws ! i), Some l)]) else (l, ws))"
| "watermark_step (StoreLastID i) (l, ws) =
     (if i < length ws then
        (case snd (ws ! i) of
           None \<Rightarrow> (l, ws)
         | Some seen \<Rightarrow>
             ((if fst (ws ! i) > seen then fst (ws ! i) else l), ws[i := (fst (ws ! i), None)]))
      else (l, ws))"

fun watermark_trace :: "atomic_step list \<Rightarrow> 64 word \<times> completing list \<Rightarrow> 64 word list" where
  "watermark_trace [] st = []"
| "watermark_trace (a # as) st =
     fst (watermark_step a st) # watermark_trace as (watermark_step a st)"

subsection \<open>The campaign scan\<close>

text \<open>
  \<^verbatim>\<open>getCurrentCampaigns\<close> over the registered pipes, in the order the map is ranged over:
  the ids and the sent counts read, and the pipes with their sent counters stored back
  as zero.
\<close>

definition getCurrentCampaigns :: "tenantPipe list \<Rightarrow> (int list \<times> int list) \<times> tenantPipe list" where
  "getCurrentCampaigns ps =
     ((map (\<lambda>p. ID (camp p)) ps, map (\<lambda>p. sint (sent p)) ps), map (\<lambda>p. p\<lparr>sent := 0\<rparr>) ps)"

text \<open>
  The start of a tick of \<^verbatim>\<open>scanCampaigns\<close>: the ids and counts that
  \<^verbatim>\<open>getCurrentCampaigns\<close> returns are passed to the Store's \<^verbatim>\<open>NextTenantCampaigns\<close>.
\<close>

definition scanRead :: "int \<Rightarrow> tenantPipe list \<Rightarrow> call \<times> tenantPipe list" where
  "scanRead tid ps =
     (case getCurrentCampaigns ps of
        ((ids, counts), ps') \<Rightarrow> (NextTenantCampaigns tid ids counts, ps'))"

datatype pipe_error = UnknownMessenger | CompileTemplateError | AttachmentError int

text \<open>
  \<^verbatim>\<open>attachMedia\<close>: \<open>get\<close> is the Store's \<^verbatim>\<open>GetAttachment\<close> (\<open>None\<close> when it fails).
  The calls made are returned with the result.
\<close>

fun attachMedia :: "(int \<Rightarrow> string option) \<Rightarrow> int list \<Rightarrow> campaign \<Rightarrow> call list \<times> (pipe_error + campaign)" where
  "attachMedia get [] c = ([], Inr c)"
| "attachMedia get (mid # mids) c =
     (case get mid of
        None \<Rightarrow> ([GetAttachment mid], Inl (AttachmentError mid))
      | Some a \<Rightarrow>
          (case attachMedia get mids (c\<lparr>Attachments := Attachments c @ [a]\<rparr>) of
             (ks, r) \<Rightarrow> (GetAttachment mid # ks, r)))"

text \<open>
  \<^verbatim>\<open>newTenantPipe\<close>: \<open>messengers\<close> are the names registered on the instance,
  \<open>compiles\<close> says whether \<^verbatim>\<open>CompileTemplate\<close> succeeds. The goroutine that waits on the
  wait-group and the registration in \<^verbatim>\<open>tim.pipes\<close> are part of the instance below.
\<close>

definition newTenantPipe :: "int \<Rightarrow> string list \<Rightarrow> bool \<Rightarrow> (int \<Rightarrow> string option) \<Rightarrow> campaign
    \<Rightarrow> call list \<times> (pipe_error + tenantPipe)" where
  "newTenantPipe tid messengers compiles get c =
     (if Messenger c \<notin> set messengers then
        ([UpdateTenantCampaignStatus tid (ID c) CampaignStatusCancelled], Inl UnknownMessenger)
      else if \<not> compiles then ([], Inl CompileTemplateError)
      else
        (case attachMedia get (MediaIDs c) c of
           (ks, Inl e) \<Rightarrow> (ks, Inl e)
         | (ks, Inr c') \<Rightarrow>
             (ks, Inr \<lparr>tenantID = tid, camp = c', rate = 0, wg = wg_Add wg_new, sent = 0,
                       lastID = 0, errors = 0, stopped = False, withErrors = False\<rparr>)))"

text \<open>
  The body of one tick of \<^verbatim>\<open>scanCampaigns\<close> over the campaigns the Store returned: the
  calls made and the pipes registered, in order. A campaign whose pipe cannot be built is
  skipped.
\<close>

fun scanCampaigns :: "int \<Rightarrow> string list \<Rightarrow> (campaign \<Rightarrow> bool) \<Rightarrow> (int \<Rightarrow> string option)
    \<Rightarrow> campaign list \<Rightarrow> call list \<times> tenantPipe list" where
  "scanCampaigns tid messengers compiles get [] = ([], [])"
| "scanCampaigns tid messengers compiles get (c # cs) =
     (case newTenantPipe tid messengers (compiles c) get c of
        (ks, r) \<Rightarrow>
          (case scanCampaigns tid messengers compiles get cs of
             (ks', ps) \<Rightarrow> (ks @ ks', (case r of Inl e \<Rightarrow> ps | Inr tp \<Rightarrow> tp # ps))))"

subsection \<open>The instance around one pipe\<close>

text \<open>
  The part of \<^verbatim>\<open>tenantInstanceManager\<close> that one pipe lives in: whether the pipe is in
  \<^verbatim>\<open>tim.pipes\<close> and in the \<^verbatim>\<open>nextPipes\<close> queue, its messages waiting in \<^verbatim>\<open>campMsgQ\<close>,
  the sliding-window count and start, each worker's \<^verbatim>\<open>numMsg\<close>, the message of the
  pipe that each worker has pushed and marked done and whose outcome it has not recorded
  yet (with whether the push failed), and the calls made so far. \<open>now\<close> is the wall clock in nanoseconds, \<open>pushLog\<close> records the clock reading
  taken after each push onto \<^verbatim>\<open>campMsgQ\<close>, and \<open>cleaned\<close> counts the runs of
  \<^verbatim>\<open>cleanup\<close>; these three are observations, not fields of the source.
\<close>

record tenantInstanceManager =
  pipe :: tenantPipe
  inPipes :: bool
  inNextPipes :: bool
  campMsgQ :: "subscriber list"
  slidingCount :: int
  slidingStart :: int
  numMsg :: "nat \<Rightarrow> int"
  inFlight :: "nat \<Rightarrow> (bool \<times> subscriber) option"
  calls :: "call list"
  now :: int
  pushLog :: "int list"
  cleaned :: nat

text \<open>
  A subscriber of a fetched batch, with whether rendering its message fails and the time
  that passes while it is rendered and pushed.
\<close>

record fetched =
  fsub :: subscriber
  renderErr :: bool
  elapsed :: nat

text \<open>
  \<^verbatim>\<open>hasSliding\<close> of \<^verbatim>\<open>NextSubscribers\<close>. \<^verbatim>\<open>SlidingWindowDuration.Seconds() > 1\<close> compares
  the duration in seconds with one, which holds exactly when the duration is more than
  \<open>10\<^sup>9\<close> nanoseconds.
\<close>

definition hasSliding :: "TenantConfig \<Rightarrow> bool" where
  "hasSliding cfg \<longleftrightarrow>
     SlidingWindow cfg \<and> SlidingWindowRate cfg > 0 \<and> SlidingWindowDuration cfg > 1000000000"

text \<open>
  The sliding-window block that follows a push. \<^verbatim>\<open>time.Sleep(wait)\<close> moves the clock on
  by \<open>wait\<close>.
\<close>

definition slidingCheck :: "TenantConfig \<Rightarrow> tenantInstanceManager \<Rightarrow> tenantInstanceManager" where
  "slidingCheck cfg m =
     (let diff = now m - slidingStart m
      in if diff \<ge> SlidingWindowDuration cfg then
           m\<lparr>slidingStart := now m, slidingCount := 0\<rparr>
         else
           let c = slidingCount m + 1
           in if c \<ge> SlidingWindowRate cfg then
                m\<lparr>slidingCount := 0, now := now m + (SlidingWindowDuration cfg - diff)\<rparr>
              else m\<lparr>slidingCount := c\<rparr>)"

text \<open>
  One iteration of the loop of \<^verbatim>\<open>NextSubscribers\<close>: \<^verbatim>\<open>newTenantMessage\<close> renders the
  message and, only when that succeeds, adds one to the wait-group; the message is pushed
  onto \<^verbatim>\<open>campMsgQ\<close> (a push onto a full queue waits for a worker, and is a push all the
  same); then comes the sliding-window block.
\<close>

definition pushSubscriber :: "TenantConfig \<Rightarrow> fetched \<Rightarrow> tenantInstanceManager \<Rightarrow> tenantInstanceManager" where
  "pushSubscriber cfg f m =
     (let m0 = m\<lparr>now := now m + int (elapsed f)\<rparr>
      in if renderErr f then m0
         else
           let m1 = m0\<lparr>pipe := (pipe m0)\<lparr>wg := wg_Add (wg (pipe m0))\<rparr>,
                       campMsgQ := campMsgQ m0 @ [fsub f],
                       pushLog := pushLog m0 @ [now m0]\<rparr>
           in if hasSliding cfg then slidingCheck cfg m1 else m1)"

fun pushSubscribers :: "TenantConfig \<Rightarrow> fetched list \<Rightarrow> tenantInstanceManager \<Rightarrow> tenantInstanceManager" where
  "pushSubscribers cfg [] m = m"
| "pushSubscribers cfg (f # fs) m = pushSubscribers cfg fs (pushSubscriber cfg f m)"

text \<open>
  \<^verbatim>\<open>tenantPipe.NextSubscribers\<close>: \<open>batch\<close> is what \<^verbatim>\<open>NextTenantSubscribers\<close> returned
  (\<open>None\<close> when it fails). The result is the error, or whether there were subscribers.
\<close>

datatype fetch_error = FetchError

definition NextSubscribers :: "TenantConfig \<Rightarrow> fetched list option \<Rightarrow> tenantInstanceManager
    \<Rightarrow> (fetch_error + bool) \<times> tenantInstanceManager" where
  "NextSubscribers cfg batch m =
     (case batch of
        None \<Rightarrow> (Inl FetchError, m)
      | Some subs \<Rightarrow>
          if subs = [] then (Inr False, m)
          else (Inr True, pushSubscribers cfg subs m))"

text \<open>
  What can happen to the pipe:
  \<^item> \<open>NextPipe batch room\<close>: the loop of \<^verbatim>\<open>run\<close> takes the pipe from \<^verbatim>\<open>nextPipes\<close> and calls
    \<^verbatim>\<open>NextSubscribers\<close>; \<open>room\<close> says whether the queue accepts the pipe again;
  \<^item> \<open>Worker w pushErr\<close>: worker \<open>w\<close> takes the pipe's oldest message from \<^verbatim>\<open>campMsgQ\<close>,
    up to and with \<^verbatim>\<open>wg.Done()\<close>;
  \<^item> \<open>Finish w\<close>: worker \<open>w\<close> records the outcome of the message it has pushed;
  \<^item> \<open>StopCampaign\<close>: \<^verbatim>\<open>StopCampaign\<close> with the campaign's id;
  \<^item> \<open>Scan\<close>: a tick of \<^verbatim>\<open>scanCampaigns\<close> reads the running campaigns (the Store is
    given their ids and returns other campaigns, for which other pipes are built);
  \<^item> \<open>Cleanup fetched\<close>: the goroutine started by \<^verbatim>\<open>newTenantPipe\<close> returns from
    \<^verbatim>\<open>wg.Wait()\<close> and runs \<^verbatim>\<open>cleanup\<close>.

  Events of different goroutines come in any order: in particular \<open>Cleanup\<close> can come
  between the \<open>Worker\<close> and the \<open>Finish\<close> of the last message. Each event is one
  step: the loads of \<^verbatim>\<open>cleanup\<close>, and the load and the store of the scan on the sent
  counter, are taken with nothing in between, so the runs of the model are runs of the
  source, and the source has others. The watermark's load and store are taken apart in
  \<open>watermark_step\<close> above.
\<close>

datatype event =
    NextPipe "fetched list option" bool
  | Worker nat bool
  | Finish nat
  | StopCampaign
  | Scan
  | Cleanup "campaign option"

definition step :: "TenantConfig \<Rightarrow> event \<Rightarrow> tenantInstanceManager \<Rightarrow> fault + tenantInstanceManager" where
  "step cfg ev m =
     (case ev of
        NextPipe batch room \<Rightarrow>
          if \<not> inNextPipes m then Inl NotEnabled
          else
            (case NextSubscribers cfg batch (m\<lparr>inNextPipes := False\<rparr>) of
               (Inl err, m') \<Rightarrow> Inr m'
             | (Inr True, m') \<Rightarrow> Inr (m'\<lparr>inNextPipes := room\<rparr>)
             | (Inr False, m') \<Rightarrow>
                 (case wg_Done (wg (pipe m')) of
                    Inl e \<Rightarrow> Inl e
                  | Inr w \<Rightarrow> Inr (m'\<lparr>pipe := (pipe m')\<lparr>wg := w\<rparr>\<rparr>)))
      | Worker w pushErr \<Rightarrow>
          (case inFlight m w of
             Some busy \<Rightarrow> Inl NotEnabled
           | None \<Rightarrow>
               (case campMsgQ m of
                  [] \<Rightarrow> Inl NotEnabled
                | s # rest \<Rightarrow>
                    (case workerTake cfg (numMsg m w, pipe m) of
                       Inl e \<Rightarrow> Inl e
                     | Inr (n, tp, pushed) \<Rightarrow>
                         Inr (m\<lparr>campMsgQ := rest, numMsg := (numMsg m)(w := n), pipe := tp,
                                 inFlight := (inFlight m)
                                   (w := if pushed then Some (pushErr, s) else None)\<rparr>))))
      | Finish w \<Rightarrow>
          (case inFlight m w of
             None \<Rightarrow> Inl NotEnabled
           | Some (pushErr, s) \<Rightarrow>
               Inr (m\<lparr>pipe := workerFinish cfg pushErr s (pipe m),
                       inFlight := (inFlight m)(w := None)\<rparr>))
      | StopCampaign \<Rightarrow>
          Inr (if inPipes m then m\<lparr>pipe := Stop False (pipe m)\<rparr> else m)
      | Scan \<Rightarrow>
          (case scanRead (tenantID (pipe m)) (if inPipes m then [pipe m] else []) of
             (k, ps) \<Rightarrow>
               Inr (m\<lparr>pipe := (case ps of [] \<Rightarrow> pipe m | p # _ \<Rightarrow> p),
                       calls := calls m @ [k]\<rparr>))
      | Cleanup fetched \<Rightarrow>
          if wg_counter (wg (pipe m)) = 0 \<and> cleaned m = 0 then
            Inr (m\<lparr>calls := calls m @ cleanup fetched (pipe m), inPipes := False,
                    cleaned := Suc (cleaned m)\<rparr>)
          else Inl NotEnabled)"

fun exec :: "TenantConfig \<Rightarrow> event list \<Rightarrow> tenantInstanceManager \<Rightarrow> fault + tenantInstanceManager" where
  "exec cfg [] m = Inr m"
| "exec cfg (ev # evs) m =
     (case step cfg ev m of Inl e \<Rightarrow> Inl e | Inr m' \<Rightarrow> exec cfg evs m')"

text \<open>
  The instance right after \<^verbatim>\<open>scanCampaigns\<close> has built the pipe \<open>tp\<close>: it is registered,
  and it is in \<^verbatim>\<open>nextPipes\<close> when the queue had room; no worker holds a message of it.
  The sliding-window state, the clock and the workers' counts are the instance's, whatever
  they are at that moment.
\<close>

definition started :: "tenantPipe \<Rightarrow> bool \<Rightarrow> int \<Rightarrow> int \<Rightarrow> int \<Rightarrow> (nat \<Rightarrow> int)
    \<Rightarrow> tenantInstanceManager" where
  "started tp room cnt start clock nm =
     \<lparr>pipe = tp, inPipes = True, inNextPipes = room, campMsgQ = [], slidingCount = cnt,
      slidingStart = start, numMsg = nm, inFlight = (\<lambda>w. None), calls = [], now = clock,
      pushLog = [], cleaned = 0\<rparr>"




text \<open>Nothing is left to happen to the wait-group: the pipe is in no queue and has no message waiting.\<close>

definition quiescent :: "tenantInstanceManager \<Rightarrow> bool" where
  "quiescent m \<longleftrightarrow> \<not> inNextPipes m \<and> campMsgQ m = []"

subsection \<open>Loading a tenant's configuration\<close>

text \<open>
  A value of the settings map (\<^verbatim>\<open>map[string]interface{}\<close>): a string, a number
  (a finite \<^verbatim>\<open>float64\<close>, here a real), or anything else.
\<close>

datatype setting = SettingString string | SettingNumber real | SettingOther















subsection \<open>The sliding window\<close>

text \<open>
  The pushes whose clock reading lies in the window that is open now, and what holds of
  the window between two iterations of the loop of \<^verbatim>\<open>NextSubscribers\<close>: the count is
  below the ceiling, no push is later than the clock or than the end of the window, and
  the pushes inside the window are at most one more than the count (the push that opened
  the window is not counted).
\<close>

definition inWindow :: "TenantConfig \<Rightarrow> tenantInstanceManager \<Rightarrow> int list" where
  "inWindow cfg m =
     filter (\<lambda>t. slidingStart m \<le> t \<and> t < slidingStart m + SlidingWindowDuration cfg)
       (pushLog m)"

definition window_inv :: "TenantConfig \<Rightarrow> tenantInstanceManager \<Rightarrow> bool" where
  "window_inv cfg m \<longleftrightarrow>
     0 \<le> slidingCount m \<and> slidingCount m < SlidingWindowRate cfg
     \<and> slidingStart m \<le> now m
     \<and> (\<forall>t \<in> set (pushLog m).
          t \<le> now m \<and> t < slidingStart m + SlidingWindowDuration cfg
          \<and> (SlidingWindowDuration cfg \<le> now m - slidingStart m \<longrightarrow> t < now m))
     \<and> int (length (inWindow cfg m)) \<le> SlidingWindowRate cfg + 1
     \<and> (now m - slidingStart m < SlidingWindowDuration cfg \<longrightarrow>
          int (length (inWindow cfg m)) \<le> slidingCount m + 1)"

subsection \<open>Concrete inputs\<close>

text \<open>
  A global configuration, a tenant configuration, a campaign, a subscriber and a newly
  built pipe to evaluate the model on.
\<close>

definition example_config :: Config where
  "example_config = \<lparr>BatchSize = 100, Concurrency = 2, MessageRate = 5, MaxSendErrors = 3,
      SlidingWindow = True, SlidingWindowDuration = 10000000000, SlidingWindowRate = 2,
      RequeueOnError = False, FromEmail = ''a@b.c'', IndividualTracking = False,
      LinkTrackURL = ''http://x/link/%s/%s/%s'', UnsubURL = ''http://x/subscription/%s/%s'',
      OptinURL = ''http://x/subscription/optin/%s?l=%s'', MessageURL = ''http://x/campaign/%s/%s'',
      ViewTrackURL = ''http://x/campaign/%s/%s/px.png'', ArchiveURL = ''http://x/archive'',
      RootURL = ''http://x'', UnsubHeader = True, ScanInterval = 5000000000,
      ScanCampaigns = True\<rparr>"

definition example_cfg :: TenantConfig where
  "example_cfg = Config.extend example_config
     (TenantConfig.fields 7 ''t@b.c'' [] 0 [] [] False False [] [] [] [] [] 100 2 5 3)"

definition example_campaign :: campaign where
  "example_campaign = \<lparr>ID = 4, Name = ''c'', Messenger = ''email'',
     Status = CampaignStatusRunning, MediaIDs = [], Attachments = []\<rparr>"

definition example_subscriber :: subscriber where
  "example_subscriber = \<lparr>sub_ID = 1, sub_Email = ''s@b.c''\<rparr>"

definition example_pipe :: tenantPipe where
  "example_pipe = \<lparr>tenantID = 7, camp = example_campaign, rate = 0, wg = wg_Add wg_new,
     sent = 0, lastID = 0, errors = 0, stopped = False, withErrors = False\<rparr>"

text \<open>A Store without attachments and a tenant's stored settings.\<close>

definition no_attachments :: "int \<Rightarrow> string option" where
  "no_attachments mid = None"


text \<open>Two fetched subscribers: one whose message renders, one whose message does not.\<close>

definition example_fetched :: fetched where
  "example_fetched = \<lparr>fsub = example_subscriber, renderErr = False, elapsed = 0\<rparr>"


text \<open>Workers that have sent nothing in the current second.\<close>

definition idle_workers :: "nat \<Rightarrow> int" where
  "idle_workers w = 0"


definition example_with_media :: campaign where
  "example_with_media = \<lparr>ID = 5, Name = ''m'', Messenger = ''email'',
     Status = CampaignStatusRunning, MediaIDs = [3], Attachments = []\<rparr>"


section \<open>Stop, OnError and cleanup\<close>

lemma Stop_stopped: "stopped (Stop b tp)"
  by (simp add: Stop_def)

lemma Stop_when_stopped: "stopped tp \<Longrightarrow> Stop b tp = tp"
  by (simp add: Stop_def)

lemma Stop_frame:
  "tenantID (Stop b tp) = tenantID tp" "camp (Stop b tp) = camp tp" "rate (Stop b tp) = rate tp"
  "wg (Stop b tp) = wg tp" "sent (Stop b tp) = sent tp" "lastID (Stop b tp) = lastID tp"
  "errors (Stop b tp) = errors tp"
  by (simp_all add: Stop_def)

lemma OnError_frame:
  "tenantID (OnError cfg tp) = tenantID tp" "camp (OnError cfg tp) = camp tp"
  "rate (OnError cfg tp) = rate tp" "wg (OnError cfg tp) = wg tp"
  "sent (OnError cfg tp) = sent tp" "lastID (OnError cfg tp) = lastID tp"
  by (simp_all add: OnError_def Let_def Stop_frame)

lemma OnError_when_stopped:
  "stopped tp \<Longrightarrow> stopped (OnError cfg tp) \<and> withErrors (OnError cfg tp) = withErrors tp"
  by (simp add: OnError_def Let_def Stop_def)

lemma run_call_when_stopped:
  "stopped tp \<Longrightarrow> stopped (run_call cfg c tp) \<and> withErrors (run_call cfg c tp) = withErrors tp"
  by (cases c) (simp_all add: Stop_when_stopped OnError_when_stopped)

lemma run_call_frame:
  "sent (run_call cfg c tp) = sent tp" "lastID (run_call cfg c tp) = lastID tp"
  "tenantID (run_call cfg c tp) = tenantID tp" "camp (run_call cfg c tp) = camp tp"
  by (cases c; simp add: Stop_frame OnError_frame)+

lemma run_calls_when_stopped:
  "stopped tp \<Longrightarrow> stopped (run_calls cfg cs tp) \<and> withErrors (run_calls cfg cs tp) = withErrors tp"
proof (induction cs arbitrary: tp)
  case Nil
  then show ?case by simp
next
  case (Cons c cs)
  from Cons.prems have s: "stopped (run_call cfg c tp)"
    and w: "withErrors (run_call cfg c tp) = withErrors tp"
    using run_call_when_stopped by blast+
  from Cons.IH [OF s] w show ?case by simp
qed

lemma run_calls_frame:
  "sent (run_calls cfg cs tp) = sent tp \<and> lastID (run_calls cfg cs tp) = lastID tp
   \<and> tenantID (run_calls cfg cs tp) = tenantID tp \<and> camp (run_calls cfg cs tp) = camp tp"
  by (induction cs arbitrary: tp) (simp_all add: run_call_frame)

lemma cleanup_manual:
  "stopped tp \<Longrightarrow> \<not> withErrors tp \<Longrightarrow>
   cleanup fetched tp =
     [UpdateTenantCampaignCounts (tenantID tp) (ID (camp tp)) 0 (sint (sent tp)) (sint (lastID tp))]"
  by (simp add: cleanup_def)

lemma cleanup_withErrors:
  "withErrors tp \<Longrightarrow>
   cleanup fetched tp =
     [UpdateTenantCampaignCounts (tenantID tp) (ID (camp tp)) 0 (sint (sent tp)) (sint (lastID tp)),
      UpdateTenantCampaignStatus (tenantID tp) (ID (camp tp)) CampaignStatusPaused,
      Notif (tenantID tp) (ID (camp tp)) CampaignStatusPaused ''Too many errors'']"
  by (simp add: cleanup_def)

text \<open>
  Claim C9. Once the stopped flag is set, every later \<^verbatim>\<open>Stop\<close>, with or without errors,
  and every later \<^verbatim>\<open>OnError\<close> leaves the stopped and with-errors flags as they are. So
  a pipe that is stopped by hand while it is not marked with-errors stays unmarked
  whatever calls follow, and its cleanup only reports the counts: no status update and
  no notification.
\<close>

theorem Stop_first_writer_wins:
  "(stopped tp \<longrightarrow>
      Stop b tp = tp
      \<and> stopped (run_calls cfg cs tp)
      \<and> withErrors (run_calls cfg cs tp) = withErrors tp)
   \<and> (\<not> withErrors tp \<longrightarrow>
        stopped (run_calls cfg cs (Stop False tp))
        \<and> \<not> withErrors (run_calls cfg cs (Stop False tp))
        \<and> cleanup fetched (run_calls cfg cs (Stop False tp)) =
            [UpdateTenantCampaignCounts (tenantID tp) (ID (camp tp)) 0
               (sint (sent tp)) (sint (lastID tp))])"
proof (intro conjI impI)
  assume s: "stopped tp"
  show "Stop b tp = tp" using s by (rule Stop_when_stopped)
  show "stopped (run_calls cfg cs tp)" using run_calls_when_stopped [OF s] by simp
  show "withErrors (run_calls cfg cs tp) = withErrors tp"
    using run_calls_when_stopped [OF s] by simp
next
  assume w: "\<not> withErrors tp"
  let ?q = "Stop False tp"
  let ?r = "run_calls cfg cs ?q"
  have qs: "stopped ?q" by (rule Stop_stopped)
  have qw: "\<not> withErrors ?q" using w by (simp add: Stop_def)
  show rs: "stopped ?r" using run_calls_when_stopped [OF qs] by simp
  show rw: "\<not> withErrors ?r" using run_calls_when_stopped [OF qs] qw by simp
  have fr: "sent ?r = sent tp" "lastID ?r = lastID tp" "tenantID ?r = tenantID tp"
    "camp ?r = camp tp"
    using run_calls_frame [of cfg cs ?q] by (simp_all add: Stop_frame)
  show "cleanup fetched ?r =
      [UpdateTenantCampaignCounts (tenantID tp) (ID (camp tp)) 0 (sint (sent tp)) (sint (lastID tp))]"
    using cleanup_manual [OF rs rw, of fetched] fr by simp
qed

theorem Stop_first_writer_wins_witness:
  "stopped (Stop False example_pipe) \<and> \<not> withErrors example_pipe
   \<and> Stop True (Stop False example_pipe) = Stop False example_pipe
   \<and> withErrors (run_calls example_cfg [CallOnError, CallStop True, CallOnError]
         (Stop False example_pipe)) = withErrors example_pipe
   \<and> cleanup None (run_calls example_cfg [CallOnError, CallStop True] (Stop False example_pipe)) =
        [UpdateTenantCampaignCounts 7 4 0 0 0]"
  using Stop_first_writer_wins [of "Stop False example_pipe" True example_cfg
      "[CallOnError, CallStop True, CallOnError]" None]
    Stop_first_writer_wins [of example_pipe True example_cfg "[CallOnError, CallStop True]" None]
  by (simp add: example_pipe_def example_campaign_def Stop_def)


lemma OnError_errors:
  "1 \<le> TenantMaxSendErrors cfg \<Longrightarrow> errors (OnError cfg tp) = errors tp + 1"
  by (simp add: OnError_def Let_def Stop_frame)

lemma OnError_flagged:
  "stopped tp \<longrightarrow> withErrors tp \<Longrightarrow> stopped (OnError cfg tp) \<longrightarrow> withErrors (OnError cfg tp)"
  by (auto simp add: OnError_def Let_def Stop_def split: if_splits)

lemma OnError_reaches:
  "1 \<le> TenantMaxSendErrors cfg \<Longrightarrow> TenantMaxSendErrors cfg \<le> sint (errors tp + 1)
   \<Longrightarrow> stopped (OnError cfg tp)"
  by (simp add: OnError_def Let_def Stop_def)

lemma failures_errors:
  "1 \<le> TenantMaxSendErrors cfg \<Longrightarrow> errors (failures cfg n tp) = errors tp + of_nat n"
  by (induction n) (simp_all add: OnError_errors)

lemma failures_flagged:
  "stopped tp \<longrightarrow> withErrors tp \<Longrightarrow> stopped (failures cfg n tp) \<longrightarrow> withErrors (failures cfg n tp)"
  by (induction n) (simp_all add: OnError_flagged)

lemma failures_frame:
  "sent (failures cfg n tp) = sent tp \<and> lastID (failures cfg n tp) = lastID tp
   \<and> tenantID (failures cfg n tp) = tenantID tp \<and> camp (failures cfg n tp) = camp tp"
  by (induction n) (simp_all add: OnError_frame)

lemma sint_errors_count:
  fixes e :: "64 word"
  assumes "unat e + n < 2 ^ 63"
  shows "sint (e + of_nat n) = int (unat e + n)"
proof -
  have p: "(2::nat) ^ 63 < 2 ^ 64" by simp
  have n: "n < 2 ^ 64" and s: "unat e + n < 2 ^ 64" using assms p by linarith+
  have un: "unat (of_nat n :: 64 word) = n"
    using n by (simp add: unat_of_nat)
  have "unat e + unat (of_nat n :: 64 word) < 2 ^ LENGTH(64)"
    using s un by simp
  then have "unat (e + of_nat n) = unat e + unat (of_nat n :: 64 word)"
    by (simp only: unat_add_lem)
  then have "unat (e + of_nat n) = unat e + n"
    using un by (simp only:)
  then have u: "uint (e + of_nat n) = int (unat e + n)"
    by (simp only: uint_nat)
  have b: "int (unat e + n) < 2 ^ 63"
    using assms by (metis of_nat_less_iff of_nat_numeral of_nat_power)
  have "sint (e + of_nat n) = signed_take_bit 63 (uint (e + of_nat n))"
    by (simp add: sint_uint)
  also have "\<dots> = int (unat e + n)"
  proof -
    have "- (2 ^ 63) \<le> (0::int)" by simp
    also have "0 \<le> int (unat e + n)" by (rule of_nat_0_le_iff)
    finally have ge: "- (2 ^ 63) \<le> int (unat e + n)" .
    show ?thesis unfolding u by (rule signed_take_bit_int_eq_self [OF ge b])
  qed
  finally show ?thesis .
qed


lemma worker_failure:
  "\<not> stopped tp \<Longrightarrow> 0 < wg_counter (wg tp) \<Longrightarrow>
   worker cfg True s (k, tp) =
     Inr ((if k \<ge> TenantMessageRate cfg then 0 else k) + 1,
          OnError cfg (tp\<lparr>wg := (wg tp)\<lparr>dones := Suc (dones (wg tp))\<rparr>\<rparr>))"
  by (simp add: worker_def wg_Done_def Let_def)

text \<open>
  When cleanup comes after the \<^verbatim>\<open>OnError\<close> of the failure that reaches the threshold:
  on a running pipe every delivery failure adds one to the error counter, \<open>n\<close>
  failures in a row that bring the count to the threshold leave the pipe stopped and
  marked with-errors, whatever \<^verbatim>\<open>Stop\<close> or \<^verbatim>\<open>OnError\<close> follows, and cleanup then sets the
  campaign to paused and sends one notification.
\<close>

lemma error_threshold_sequential:
  assumes T: "1 \<le> TenantMaxSendErrors cfg"
    and running: "\<not> stopped tp"
    and reach: "TenantMaxSendErrors cfg \<le> int n"
    and small: "unat (errors tp) + n < 2 ^ 63"
  shows "(0 < wg_counter (wg tp) \<longrightarrow>
            (\<exists>k' tp'. worker cfg True s (k, tp) = Inr (k', tp') \<and> errors tp' = errors tp + 1))
       \<and> errors (failures cfg n tp) = errors tp + of_nat n
       \<and> stopped (failures cfg n tp) \<and> withErrors (failures cfg n tp)
       \<and> stopped (run_calls cfg cs (failures cfg n tp))
       \<and> withErrors (run_calls cfg cs (failures cfg n tp))
       \<and> cleanup fetched (run_calls cfg cs (failures cfg n tp)) =
           [UpdateTenantCampaignCounts (tenantID tp) (ID (camp tp)) 0
              (sint (sent tp)) (sint (lastID tp)),
            UpdateTenantCampaignStatus (tenantID tp) (ID (camp tp)) CampaignStatusPaused,
            Notif (tenantID tp) (ID (camp tp)) CampaignStatusPaused ''Too many errors'']
       \<and> length (filter is_notif (cleanup fetched (run_calls cfg cs (failures cfg n tp)))) = 1"
proof -
  let ?p = "failures cfg n tp"
  let ?r = "run_calls cfg cs ?p"
  have w: "0 < wg_counter (wg tp) \<longrightarrow>
      (\<exists>k' tp'. worker cfg True s (k, tp) = Inr (k', tp') \<and> errors tp' = errors tp + 1)"
    using worker_failure [OF running, of cfg s k] OnError_errors [OF T] by simp
  have e: "errors ?p = errors tp + of_nat n"
    by (rule failures_errors [OF T])
  from T reach have "0 < n" by linarith
  then obtain j where n: "n = Suc j" by (cases n) simp_all
  let ?q = "failures cfg j tp"
  have "errors ?q + 1 = errors tp + of_nat n"
    using failures_errors [OF T, of j tp] n by simp
  then have "sint (errors ?q + 1) = int (unat (errors tp) + n)"
    using sint_errors_count [OF small] by simp
  then have "TenantMaxSendErrors cfg \<le> sint (errors ?q + 1)"
    using reach by linarith
  then have "stopped (OnError cfg ?q)"
    by (rule OnError_reaches [OF T])
  then have s: "stopped ?p" using n by simp
  have "stopped ?p \<longrightarrow> withErrors ?p"
    by (rule failures_flagged) (simp add: running)
  with s have we: "withErrors ?p" by simp
  have rs: "stopped ?r" and rw: "withErrors ?r"
    using run_calls_when_stopped [OF s, of cfg cs] we by simp_all
  have fr: "sent ?r = sent tp" "lastID ?r = lastID tp" "tenantID ?r = tenantID tp"
    "camp ?r = camp tp"
    using run_calls_frame [of cfg cs ?p] failures_frame [of cfg n tp] by simp_all
  have c: "cleanup fetched ?r =
      [UpdateTenantCampaignCounts (tenantID tp) (ID (camp tp)) 0 (sint (sent tp)) (sint (lastID tp)),
       UpdateTenantCampaignStatus (tenantID tp) (ID (camp tp)) CampaignStatusPaused,
       Notif (tenantID tp) (ID (camp tp)) CampaignStatusPaused ''Too many errors'']"
    using cleanup_withErrors [OF rw, of fetched] fr by simp
  have l: "length (filter is_notif (cleanup fetched ?r)) = 1"
    unfolding c by simp
  from w e s we rs rw c l show ?thesis by blast
qed

text \<open>
  Claim C2. The threshold is 3 and a pipe's three messages all fail. The worker calls
  \<^verbatim>\<open>wg.Done()\<close> before \<^verbatim>\<open>OnError()\<close>: after the third \<^verbatim>\<open>wg.Done()\<close> the wait-group is at
  zero, and cleanup runs before the third \<^verbatim>\<open>OnError()\<close>. Cleanup reads both flags unset,
  sets the campaign to finished and sends the notification of a finished campaign; the
  third \<^verbatim>\<open>OnError()\<close> then brings the count to 3 and sets both flags, which nothing reads
  any more. No paused status is set and no failure notification is sent. When the third
  \<^verbatim>\<open>OnError()\<close> comes first, cleanup sets the campaign to paused and sends the failure
  notification.
\<close>

theorem error_threshold_race:
  "TenantMaxSendErrors example_cfg = 3
   \<and> (case exec example_cfg
        [NextPipe (Some [example_fetched, example_fetched, example_fetched]) True,
         NextPipe (Some []) True,
         Worker 0 True, Finish 0, Worker 0 True, Finish 0, Worker 0 True,
         Cleanup (Some example_campaign), Finish 0]
        (started example_pipe True 0 0 0 idle_workers) of
        Inl e \<Rightarrow> False
      | Inr m \<Rightarrow>
          calls m = [UpdateTenantCampaignCounts 7 4 0 0 0, GetTenantCampaign 7 4,
                     UpdateTenantCampaignStatus 7 4 CampaignStatusFinished,
                     Notif 7 4 CampaignStatusFinished []]
          \<and> errors (pipe m) = 3 \<and> stopped (pipe m) \<and> withErrors (pipe m)
          \<and> cleaned m = 1 \<and> wg_counter (wg (pipe m)) = 0 \<and> campMsgQ m = [])
   \<and> (case exec example_cfg
        [NextPipe (Some [example_fetched, example_fetched, example_fetched]) True,
         NextPipe (Some []) True,
         Worker 0 True, Finish 0, Worker 0 True, Finish 0, Worker 0 True,
         Finish 0, Cleanup (Some example_campaign)]
        (started example_pipe True 0 0 0 idle_workers) of
        Inl e \<Rightarrow> False
      | Inr m \<Rightarrow>
          calls m = [UpdateTenantCampaignCounts 7 4 0 0 0,
                     UpdateTenantCampaignStatus 7 4 CampaignStatusPaused,
                     Notif 7 4 CampaignStatusPaused ''Too many errors'']
          \<and> errors (pipe m) = 3 \<and> stopped (pipe m) \<and> withErrors (pipe m)
          \<and> cleaned m = 1 \<and> wg_counter (wg (pipe m)) = 0 \<and> campMsgQ m = [])"
  by (simp add: example_pipe_def example_cfg_def example_config_def example_campaign_def
      example_fetched_def example_subscriber_def started_def idle_workers_def step_def
      NextSubscribers_def pushSubscriber_def slidingCheck_def hasSliding_def workerTake_def
      workerFinish_def OnError_def Stop_def cleanup_def
      wg_Done_def wg_Add_def wg_new_def wg_counter_def Let_def Config.defs TenantConfig.defs)

lemma workers_discard:
  "stopped tp \<Longrightarrow> workers cfg ins (k, tp) = Inr (k', tp') \<Longrightarrow>
   k' = k \<and> stopped tp' \<and> withErrors tp' = withErrors tp \<and> sent tp' = sent tp
   \<and> lastID tp' = lastID tp \<and> tenantID tp' = tenantID tp \<and> camp tp' = camp tp
   \<and> errors tp' = errors tp \<and> rate tp' = rate tp"
proof (induction ins arbitrary: tp)
  case Nil
  then show ?case by simp
next
  case (Cons i ins)
  obtain pushErr s where i: "i = (pushErr, s)" by (cases i)
  from Cons.prems i obtain st1 where w: "worker cfg pushErr s (k, tp) = Inr st1"
    and r: "workers cfg ins st1 = Inr (k', tp')"
    by (auto split: sum.splits)
  obtain k1 tp1 where st1: "st1 = (k1, tp1)" by (cases st1)
  from w st1 Cons.prems(1)
  have d: "k1 = k \<and> tp1 = tp\<lparr>wg := (wg tp)\<lparr>dones := Suc (dones (wg tp))\<rparr>\<rparr>"
    by (auto simp add: worker_def wg_Done_def split: if_splits)
  then have s1: "stopped tp1" using Cons.prems(1) by simp
  from Cons.IH [OF s1] r st1 d show ?case by simp
qed

text \<open>
  Claim C3. A pipe that is stopped by hand while it is not marked with-errors, and whose
  remaining messages the workers then take from the queue, is cleaned up by reporting the
  counts it had when it was stopped and nothing else: no status update is made, so the
  campaign's status stays as it is, and no notification is sent.
\<close>

theorem manual_stop_leaves_status:
  assumes "\<not> withErrors tp" and "workers cfg ins (k, Stop False tp) = Inr (k', tp')"
  shows "cleanup fetched tp' =
           [UpdateTenantCampaignCounts (tenantID tp) (ID (camp tp)) 0
              (sint (sent tp)) (sint (lastID tp))]
       \<and> filter is_status_update (cleanup fetched tp') = []
       \<and> filter is_notif (cleanup fetched tp') = []"
proof -
  have s: "stopped (Stop False tp)" by (rule Stop_stopped)
  have w: "\<not> withErrors (Stop False tp)" using assms(1) by (simp add: Stop_def)
  from workers_discard [OF s assms(2)] w
  have s': "stopped tp'" and w': "\<not> withErrors tp'"
    and fr: "sent tp' = sent tp" "lastID tp' = lastID tp" "tenantID tp' = tenantID tp"
      "camp tp' = camp tp"
    by (simp_all add: Stop_frame)
  have c: "cleanup fetched tp' =
      [UpdateTenantCampaignCounts (tenantID tp) (ID (camp tp)) 0 (sint (sent tp)) (sint (lastID tp))]"
    using cleanup_manual [OF s' w', of fetched] fr by simp
  show ?thesis unfolding c by simp
qed

theorem manual_stop_leaves_status_witness:
  "\<not> withErrors (example_pipe\<lparr>wg := \<lparr>adds = 3, dones = 0\<rparr>, sent := 5, lastID := 9\<rparr>)
   \<and> workers example_cfg [(False, example_subscriber), (True, example_subscriber)]
        (0, Stop False (example_pipe\<lparr>wg := \<lparr>adds = 3, dones = 0\<rparr>, sent := 5, lastID := 9\<rparr>)) =
       Inr (0, example_pipe\<lparr>wg := \<lparr>adds = 3, dones = 2\<rparr>, sent := 5, lastID := 9,
                           stopped := True\<rparr>)
   \<and> cleanup None (example_pipe\<lparr>wg := \<lparr>adds = 3, dones = 2\<rparr>, sent := 5, lastID := 9,
                                 stopped := True\<rparr>) =
       [UpdateTenantCampaignCounts 7 4 0 5 9]"
  using manual_stop_leaves_status [of
      "example_pipe\<lparr>wg := \<lparr>adds = 3, dones = 0\<rparr>, sent := 5, lastID := 9\<rparr>"
      example_cfg "[(False, example_subscriber), (True, example_subscriber)]" 0 0
      "example_pipe\<lparr>wg := \<lparr>adds = 3, dones = 2\<rparr>, sent := 5, lastID := 9, stopped := True\<rparr>"
      None]
  by (simp add: example_pipe_def example_campaign_def Stop_def worker_def wg_Done_def
      wg_counter_def)

section \<open>Deliveries\<close>


lemma worker_discard:
  "stopped tp \<Longrightarrow> worker cfg pushErr s (k, tp) = Inr (k', tp') \<Longrightarrow>
   k' = k \<and> tp' = tp\<lparr>wg := (wg tp)\<lparr>dones := Suc (dones (wg tp))\<rparr>\<rparr>"
  by (auto simp add: worker_def wg_Done_def split: if_splits)

lemma worker_failed:
  "\<not> stopped tp \<Longrightarrow> worker cfg True s (k, tp) = Inr (k', tp') \<Longrightarrow>
   tp' = OnError cfg (tp\<lparr>wg := (wg tp)\<lparr>dones := Suc (dones (wg tp))\<rparr>\<rparr>)"
  by (auto simp add: worker_def wg_Done_def Let_def split: if_splits)

lemma worker_sent:
  "\<not> stopped tp \<Longrightarrow> worker cfg False s (k, tp) = Inr (k', tp') \<Longrightarrow>
   sent tp' = sent tp + 1 \<and> rate tp' = rate tp + 1
   \<and> lastID tp' = max (lastID tp) (word_of_int (sub_ID s))
   \<and> errors tp' = errors tp \<and> stopped tp' = stopped tp \<and> withErrors tp' = withErrors tp"
  by (auto simp add: worker_def wg_Done_def Let_def max_def split: if_splits)

lemma OnError_flags:
  "stopped (OnError cfg tp) \<noteq> stopped tp \<or> withErrors (OnError cfg tp) \<noteq> withErrors tp \<Longrightarrow>
   1 \<le> TenantMaxSendErrors cfg \<and> TenantMaxSendErrors cfg \<le> sint (errors (OnError cfg tp))"
  by (auto simp add: OnError_def Let_def Stop_def split: if_splits)

lemma OnError_errors_cases:
  "errors (OnError cfg tp) = errors tp \<or> errors (OnError cfg tp) = errors tp + 1"
  by (simp add: OnError_def Let_def Stop_frame)

text \<open>
  Claim C10, amended. A delivery that fails on a running pipe leaves the sent counter, the
  rate counter and the watermark as they were; it takes one from the wait-group, adds at
  most one to the error counter, and sets the stopped and with-errors flags only when the
  error count has reached the threshold. A message discarded because its pipe is stopped
  changes nothing but the wait-group.
\<close>

theorem failed_delivery_frame:
  "(\<not> stopped tp \<and> worker cfg True s (k, tp) = Inr (k', tp') \<longrightarrow>
      sent tp' = sent tp \<and> rate tp' = rate tp \<and> lastID tp' = lastID tp
      \<and> tenantID tp' = tenantID tp \<and> camp tp' = camp tp
      \<and> wg tp' = (wg tp)\<lparr>dones := Suc (dones (wg tp))\<rparr>
      \<and> (errors tp' = errors tp \<or> errors tp' = errors tp + 1)
      \<and> (stopped tp' \<or> withErrors tp' \<noteq> withErrors tp \<longrightarrow>
            1 \<le> TenantMaxSendErrors cfg \<and> TenantMaxSendErrors cfg \<le> sint (errors tp')))
   \<and> (stopped tp \<and> worker cfg pushErr s (k, tp) = Inr (k', tp') \<longrightarrow>
        tp' = tp\<lparr>wg := (wg tp)\<lparr>dones := Suc (dones (wg tp))\<rparr>\<rparr>)"
proof (intro conjI impI)
  assume a: "\<not> stopped tp \<and> worker cfg True s (k, tp) = Inr (k', tp')"
  let ?q = "tp\<lparr>wg := (wg tp)\<lparr>dones := Suc (dones (wg tp))\<rparr>\<rparr>"
  from a have t: "tp' = OnError cfg ?q" using worker_failed by blast
  show "sent tp' = sent tp" "rate tp' = rate tp" "lastID tp' = lastID tp"
    "tenantID tp' = tenantID tp" "camp tp' = camp tp"
    "wg tp' = (wg tp)\<lparr>dones := Suc (dones (wg tp))\<rparr>"
    unfolding t by (simp_all add: OnError_frame)
  show "errors tp' = errors tp \<or> errors tp' = errors tp + 1"
    unfolding t using OnError_errors_cases [of cfg ?q] by simp
  assume f: "stopped tp' \<or> withErrors tp' \<noteq> withErrors tp"
  have "stopped (OnError cfg ?q) \<noteq> stopped ?q \<or> withErrors (OnError cfg ?q) \<noteq> withErrors ?q"
    using f a unfolding t by auto
  from OnError_flags [OF this]
  show "1 \<le> TenantMaxSendErrors cfg" "TenantMaxSendErrors cfg \<le> sint (errors tp')"
    unfolding t by simp_all
next
  assume "stopped tp \<and> worker cfg pushErr s (k, tp) = Inr (k', tp')"
  then show "tp' = tp\<lparr>wg := (wg tp)\<lparr>dones := Suc (dones (wg tp))\<rparr>\<rparr>"
    using worker_discard by blast
qed


theorem failed_delivery_frame_witness:
  "\<not> stopped example_pipe
   \<and> worker example_cfg True example_subscriber (0, example_pipe) =
       Inr (1, example_pipe\<lparr>wg := \<lparr>adds = 1, dones = 1\<rparr>, errors := 1\<rparr>)
   \<and> stopped (Stop False example_pipe)
   \<and> worker example_cfg True example_subscriber (0, Stop False example_pipe) =
       Inr (0, example_pipe\<lparr>wg := \<lparr>adds = 1, dones = 1\<rparr>, stopped := True\<rparr>)
   \<and> sent (example_pipe\<lparr>wg := \<lparr>adds = 1, dones = 1\<rparr>, errors := 1\<rparr>) = sent example_pipe"
  using failed_delivery_frame [of example_pipe example_cfg example_subscriber 0 1
      "example_pipe\<lparr>wg := \<lparr>adds = 1, dones = 1\<rparr>, errors := 1\<rparr>" True]
    failed_delivery_frame [of "Stop False example_pipe" example_cfg example_subscriber 0 0
      "example_pipe\<lparr>wg := \<lparr>adds = 1, dones = 1\<rparr>, stopped := True\<rparr>" True]
  by (simp add: worker_def wg_Done_def wg_counter_def wg_Add_def wg_new_def example_pipe_def
      example_cfg_def example_config_def Config.defs TenantConfig.defs OnError_def Stop_def Let_def)


text \<open>
  With a threshold of one, the first failed delivery also sets the stopped and with-errors
  flags, so it changes more than the error counter and the wait-group.
\<close>

theorem failed_delivery_flags_counterexample:
  "worker (example_cfg\<lparr>TenantMaxSendErrors := 1\<rparr>) True example_subscriber (0, example_pipe) =
     Inr (1, example_pipe\<lparr>wg := \<lparr>adds = 1, dones = 1\<rparr>, errors := 1, stopped := True,
                          withErrors := True\<rparr>)
   \<and> \<not> stopped example_pipe \<and> \<not> withErrors example_pipe
   \<and> example_pipe\<lparr>wg := \<lparr>adds = 1, dones = 1\<rparr>, errors := 1, stopped := True, withErrors := True\<rparr>
        \<lparr>wg := wg example_pipe, errors := errors example_pipe\<rparr> \<noteq> example_pipe"
  by (simp add: worker_def wg_Done_def wg_counter_def wg_Add_def wg_new_def example_pipe_def
      example_cfg_def example_config_def Config.defs TenantConfig.defs OnError_def Stop_def Let_def)



section \<open>The sent counter and the watermark\<close>

lemma worker_failure_sent:
  "worker cfg True s (k, tp) = Inr (k', tp') \<Longrightarrow> sent tp' = sent tp"
  by (auto simp add: worker_def wg_Done_def Let_def OnError_frame split: if_splits)

lemma worker_discard_sent:
  "stopped tp \<Longrightarrow> worker cfg pushErr s (k, tp) = Inr (k', tp') \<Longrightarrow> sent tp' = sent tp"
  using worker_discard by fastforce

lemma scanRead_eq:
  "scanRead tid ps =
     (NextTenantCampaigns tid (map (\<lambda>p. ID (camp p)) ps) (map (\<lambda>p. sint (sent p)) ps),
      map (\<lambda>p. p\<lparr>sent := 0\<rparr>) ps)"
  by (simp add: scanRead_def getCurrentCampaigns_def)

lemma step_Scan_registered:
  "inPipes m \<Longrightarrow>
   step cfg Scan m =
     Inr (m\<lparr>pipe := (pipe m)\<lparr>sent := 0\<rparr>,
            calls := calls m @ [NextTenantCampaigns (tenantID (pipe m)) [ID (camp (pipe m))]
                                  [sint (sent (pipe m))]]\<rparr>)"
  by (simp add: step_def scanRead_eq)

text \<open>
  Claim C5, amended. A successful delivery adds one to the sent counter; a failed
  delivery, a discard, \<^verbatim>\<open>Stop\<close> and \<^verbatim>\<open>OnError\<close> leave it as it is; the campaign scan
  reads the counter of each registered pipe, passes the values read to the Store's
  \<^verbatim>\<open>NextTenantCampaigns\<close> as the sent counts, and stores zero back, changing nothing else
  of the pipe.
\<close>

theorem sent_counter_reset_by_scan:
  "(\<not> stopped tp \<and> worker cfg False s (k, tp) = Inr (k', tp') \<longrightarrow> sent tp' = sent tp + 1)
   \<and> (worker cfg True s (k, tp) = Inr (k', tp') \<longrightarrow> sent tp' = sent tp)
   \<and> (stopped tp \<and> worker cfg pushErr s (k, tp) = Inr (k', tp') \<longrightarrow> sent tp' = sent tp)
   \<and> sent (Stop b tp) = sent tp
   \<and> sent (OnError cfg tp) = sent tp
   \<and> snd (fst (getCurrentCampaigns ps)) = map (\<lambda>p. sint (sent p)) ps
   \<and> map sent (snd (getCurrentCampaigns ps)) = map (\<lambda>p. 0) ps
   \<and> map (\<lambda>p. p\<lparr>sent := 0\<rparr>) (snd (getCurrentCampaigns ps)) = map (\<lambda>p. p\<lparr>sent := 0\<rparr>) ps
   \<and> scanRead tid ps =
       (NextTenantCampaigns tid (map (\<lambda>p. ID (camp p)) ps) (map (\<lambda>p. sint (sent p)) ps),
        map (\<lambda>p. p\<lparr>sent := 0\<rparr>) ps)
   \<and> (inPipes m \<longrightarrow>
        step cfg Scan m =
          Inr (m\<lparr>pipe := (pipe m)\<lparr>sent := 0\<rparr>,
                 calls := calls m @ [NextTenantCampaigns (tenantID (pipe m)) [ID (camp (pipe m))]
                                       [sint (sent (pipe m))]]\<rparr>))"
proof -
  have a: "\<not> stopped tp \<and> worker cfg False s (k, tp) = Inr (k', tp') \<longrightarrow> sent tp' = sent tp + 1"
    using worker_sent [of tp cfg s k k' tp'] by simp
  have b: "worker cfg True s (k, tp) = Inr (k', tp') \<longrightarrow> sent tp' = sent tp"
    using worker_failure_sent [of cfg s k tp k' tp'] by simp
  have c: "stopped tp \<and> worker cfg pushErr s (k, tp) = Inr (k', tp') \<longrightarrow> sent tp' = sent tp"
    using worker_discard_sent [of tp cfg pushErr s k k' tp'] by simp
  have d: "sent (Stop b tp) = sent tp" "sent (OnError cfg tp) = sent tp"
    by (simp_all add: Stop_frame OnError_frame)
  have e: "snd (fst (getCurrentCampaigns ps)) = map (\<lambda>p. sint (sent p)) ps"
    "map sent (snd (getCurrentCampaigns ps)) = map (\<lambda>p. 0) ps"
    "map (\<lambda>p. p\<lparr>sent := 0\<rparr>) (snd (getCurrentCampaigns ps)) = map (\<lambda>p. p\<lparr>sent := 0\<rparr>) ps"
    by (simp_all add: getCurrentCampaigns_def comp_def)
  have f: "inPipes m \<longrightarrow>
      step cfg Scan m =
        Inr (m\<lparr>pipe := (pipe m)\<lparr>sent := 0\<rparr>,
               calls := calls m @ [NextTenantCampaigns (tenantID (pipe m)) [ID (camp (pipe m))]
                                     [sint (sent (pipe m))]]\<rparr>)"
    using step_Scan_registered [of m cfg] by simp
  show ?thesis
    by (intro conjI) (rule a b c d e scanRead_eq f)+
qed

theorem sent_counter_reset_by_scan_witness:
  "\<not> stopped example_pipe
   \<and> worker example_cfg False example_subscriber (0, example_pipe) =
       Inr (1, example_pipe\<lparr>wg := \<lparr>adds = 1, dones = 1\<rparr>, lastID := 1, rate := 1, sent := 1\<rparr>)
   \<and> sent (example_pipe\<lparr>wg := \<lparr>adds = 1, dones = 1\<rparr>, lastID := 1, rate := 1, sent := 1\<rparr>)
       = sent example_pipe + 1
   \<and> worker example_cfg True example_subscriber (0, example_pipe) =
       Inr (1, example_pipe\<lparr>wg := \<lparr>adds = 1, dones = 1\<rparr>, errors := 1\<rparr>)
   \<and> stopped (Stop False example_pipe)
   \<and> worker example_cfg False example_subscriber (0, Stop False example_pipe) =
       Inr (0, example_pipe\<lparr>wg := \<lparr>adds = 1, dones = 1\<rparr>, stopped := True\<rparr>)
   \<and> inPipes (started (example_pipe\<lparr>sent := 3\<rparr>) True 0 0 0 idle_workers)
   \<and> calls (projr (step example_cfg Scan
        (started (example_pipe\<lparr>sent := 3\<rparr>) True 0 0 0 idle_workers))) =
       [NextTenantCampaigns 7 [4] [3]]
   \<and> sent (pipe (projr (step example_cfg Scan
        (started (example_pipe\<lparr>sent := 3\<rparr>) True 0 0 0 idle_workers)))) = 0"
  using sent_counter_reset_by_scan [where tp = example_pipe and cfg = example_cfg
      and s = example_subscriber and k = 0 and k' = 1
      and tp' = "example_pipe\<lparr>wg := \<lparr>adds = 1, dones = 1\<rparr>, lastID := 1, rate := 1, sent := 1\<rparr>"
      and m = "started (example_pipe\<lparr>sent := 3\<rparr>) True 0 0 0 idle_workers"]
    sent_counter_reset_by_scan [where tp = example_pipe and cfg = example_cfg
      and s = example_subscriber and k = 0 and k' = 1
      and tp' = "example_pipe\<lparr>wg := \<lparr>adds = 1, dones = 1\<rparr>, errors := 1\<rparr>"]
    sent_counter_reset_by_scan [where tp = "Stop False example_pipe" and cfg = example_cfg
      and s = example_subscriber and k = 0 and k' = 0
      and tp' = "example_pipe\<lparr>wg := \<lparr>adds = 1, dones = 1\<rparr>, stopped := True\<rparr>"
      and pushErr = False]
  by (simp add: worker_def wg_Done_def wg_counter_def wg_Add_def wg_new_def example_pipe_def
      example_cfg_def example_config_def example_campaign_def example_subscriber_def
      Config.defs TenantConfig.defs OnError_def Stop_def Let_def started_def)

text \<open>
  A pipe that has sent three messages since the last scan: the scan reports three and
  leaves the counter at zero, below what it was.
\<close>

theorem sent_counter_reset_counterexample:
  "sint (sent (example_pipe\<lparr>sent := 3\<rparr>)) = 3
   \<and> getCurrentCampaigns [example_pipe\<lparr>sent := 3\<rparr>] = (([4], [3]), [example_pipe\<lparr>sent := 0\<rparr>])
   \<and> sint (sent (example_pipe\<lparr>sent := 0\<rparr>)) < sint (sent (example_pipe\<lparr>sent := 3\<rparr>))"
  by (simp add: getCurrentCampaigns_def example_pipe_def example_campaign_def)


text \<open>
  Iterations of the worker that run one after the other, each as a whole, never lower the
  watermark.
\<close>

lemma worker_watermark_mono:
  "worker cfg pushErr s (k, tp) = Inr (k', tp') \<Longrightarrow> lastID tp \<le> lastID tp'"
  by (auto simp add: worker_def wg_Done_def Let_def OnError_frame split: if_splits)

lemma workers_watermark_mono:
  "workers cfg ins (k, tp) = Inr (k', tp') \<Longrightarrow> lastID tp \<le> lastID tp'"
proof (induction ins arbitrary: k tp)
  case Nil
  then show ?case by simp
next
  case (Cons i ins)
  obtain pushErr s where i: "i = (pushErr, s)" by (cases i)
  from Cons.prems i obtain k1 tp1 where w: "worker cfg pushErr s (k, tp) = Inr (k1, tp1)"
    and r: "workers cfg ins (k1, tp1) = Inr (k', tp')"
    by (auto split: sum.splits)
  from worker_watermark_mono [OF w] Cons.IH [OF r] show ?case by simp
qed

text \<open>
  When a worker's load and store follow each other with nothing in between, the watermark
  becomes the maximum of its value and the subscriber's id, as in \<open>worker\<close>.
\<close>

lemma watermark_uninterrupted:
  "i < length ws \<Longrightarrow>
   fst (watermark_step (StoreLastID i) (watermark_step (LoadLastID i) (l, ws))) = max l (fst (ws ! i))"
  by (auto simp add: max_def)

text \<open>
  Claim C4. Two workers complete subscribers 5 and 10 on a pipe whose watermark is 0. Both
  load the watermark before either stores: the second stores 10, then the first stores 5,
  and the watermark goes from 10 down to 5.
\<close>

theorem watermark_lost_update:
  "watermark_trace [LoadLastID 0, LoadLastID 1, StoreLastID 1, StoreLastID 0]
     (0, [(5, None), (10, None)]) = [0, 0, 10, 5]"
  by simp

section \<open>Building pipes\<close>

lemma attachMedia_ID: "attachMedia get mids c = (ks, Inr c') \<Longrightarrow> ID c' = ID c"
  by (induction mids arbitrary: c ks) (auto split: option.splits prod.splits)

lemma attachMedia_calls: "attachMedia get mids c = (ks, r) \<Longrightarrow> \<not> list_ex is_status_update ks"
  by (induction mids arbitrary: c ks r) (auto split: option.splits prod.splits)

lemma newTenantPipe_unknown:
  "Messenger c \<notin> set ms \<Longrightarrow>
   newTenantPipe tid ms cok get c =
     ([UpdateTenantCampaignStatus tid (ID c) CampaignStatusCancelled], Inl UnknownMessenger)"
  by (simp add: newTenantPipe_def)

lemma newTenantPipe_known:
  "Messenger c \<in> set ms \<Longrightarrow> \<not> list_ex is_status_update (fst (newTenantPipe tid ms cok get c))"
  by (auto simp add: newTenantPipe_def dest: attachMedia_calls split: prod.splits sum.splits)

lemma newTenantPipe_Inr:
  "newTenantPipe tid ms cok get c = (ks, Inr tp) \<Longrightarrow>
   Messenger c \<in> set ms \<and> cok \<and> ID (camp tp) = ID c \<and> tenantID tp = tid
   \<and> wg tp = \<lparr>adds = 1, dones = 0\<rparr> \<and> \<not> stopped tp \<and> \<not> withErrors tp
   \<and> sent tp = 0 \<and> lastID tp = 0 \<and> errors tp = 0"
  by (auto simp add: newTenantPipe_def wg_Add_def wg_new_def dest: attachMedia_ID
      split: prod.splits sum.splits if_splits)

lemma scanCampaigns_pipes:
  "tp \<in> set (snd (scanCampaigns tid ms compiles get cs)) \<Longrightarrow>
   \<exists>c \<in> set cs. \<exists>ks. newTenantPipe tid ms (compiles c) get c = (ks, Inr tp)"
  by (induction cs arbitrary: tp) (auto split: prod.splits sum.splits)

lemma scanCampaigns_calls:
  "c \<in> set cs \<Longrightarrow>
   set (fst (newTenantPipe tid ms (compiles c) get c)) \<subseteq> set (fst (scanCampaigns tid ms compiles get cs))"
  by (induction cs) (auto split: prod.splits sum.splits)


lemma attachMedia_fails:
  "\<exists>mid \<in> set mids. get mid = None \<Longrightarrow>
   \<exists>ks mid'. attachMedia get mids c = (ks, Inl (AttachmentError mid')) \<and> get mid' = None
     \<and> mid' \<in> set mids"
proof (induction mids arbitrary: c)
  case Nil
  then show ?case by simp
next
  case (Cons mid mids)
  show ?case
  proof (cases "get mid")
    case None
    then show ?thesis by simp
  next
    case (Some a)
    with Cons.prems have "\<exists>x \<in> set mids. get x = None" by auto
    from Cons.IH [OF this, of "c\<lparr>Attachments := Attachments c @ [a]\<rparr>"]
    obtain ks mid' where "attachMedia get mids (c\<lparr>Attachments := Attachments c @ [a]\<rparr>)
        = (ks, Inl (AttachmentError mid'))" "get mid' = None" "mid' \<in> set mids"
      by blast
    with Some show ?thesis by simp
  qed
qed

lemma attachMedia_succeeds:
  "\<forall>mid \<in> set mids. get mid \<noteq> None \<Longrightarrow> \<exists>ks c'. attachMedia get mids c = (ks, Inr c')"
proof (induction mids arbitrary: c)
  case Nil
  then show ?case by simp
next
  case (Cons mid mids)
  then obtain a where a: "get mid = Some a" by auto
  from Cons.prems have "\<forall>x \<in> set mids. get x \<noteq> None" by simp
  from Cons.IH [OF this, of "c\<lparr>Attachments := Attachments c @ [a]\<rparr>"] a
  show ?case by auto
qed

lemma newTenantPipe_compile:
  "Messenger c \<in> set ms \<Longrightarrow> newTenantPipe tid ms False get c = ([], Inl CompileTemplateError)"
  by (simp add: newTenantPipe_def)

lemma newTenantPipe_attachment:
  assumes "Messenger c \<in> set ms" and "\<exists>mid \<in> set (MediaIDs c). get mid = None"
  shows "\<exists>ks mid'. newTenantPipe tid ms True get c = (ks, Inl (AttachmentError mid'))
    \<and> get mid' = None \<and> mid' \<in> set (MediaIDs c) \<and> \<not> list_ex is_status_update ks"
proof -
  from attachMedia_fails [OF assms(2), of c]
  obtain ks mid' where a: "attachMedia get (MediaIDs c) c = (ks, Inl (AttachmentError mid'))"
    and g: "get mid' = None" "mid' \<in> set (MediaIDs c)"
    by blast
  from a have "\<not> list_ex is_status_update ks" by (rule attachMedia_calls)
  with a g assms(1) show ?thesis by (simp add: newTenantPipe_def)
qed

text \<open>A pipe is built exactly when none of the three steps fails.\<close>

lemma newTenantPipe_built:
  "(\<exists>ks tp. newTenantPipe tid ms cok get c = (ks, Inr tp))
   \<longleftrightarrow> Messenger c \<in> set ms \<and> cok \<and> (\<forall>mid \<in> set (MediaIDs c). get mid \<noteq> None)"
proof
  assume "\<exists>ks tp. newTenantPipe tid ms cok get c = (ks, Inr tp)"
  then obtain ks tp where n: "newTenantPipe tid ms cok get c = (ks, Inr tp)" by blast
  from newTenantPipe_Inr [OF n] have k: "Messenger c \<in> set ms" "cok" by simp_all
  have "\<forall>mid \<in> set (MediaIDs c). get mid \<noteq> None"
  proof (rule ccontr)
    assume "\<not> (\<forall>mid \<in> set (MediaIDs c). get mid \<noteq> None)"
    then have "\<exists>mid \<in> set (MediaIDs c). get mid = None" by simp
    from newTenantPipe_attachment [OF k(1) this, of tid] k(2) n show False by auto
  qed
  with k show "Messenger c \<in> set ms \<and> cok \<and> (\<forall>mid \<in> set (MediaIDs c). get mid \<noteq> None)"
    by simp
next
  assume a: "Messenger c \<in> set ms \<and> cok \<and> (\<forall>mid \<in> set (MediaIDs c). get mid \<noteq> None)"
  then obtain ks c' where "attachMedia get (MediaIDs c) c = (ks, Inr c')"
    using attachMedia_succeeds [of "MediaIDs c" get c] by blast
  with a show "\<exists>ks tp. newTenantPipe tid ms cok get c = (ks, Inr tp)"
    by (simp add: newTenantPipe_def)
qed

lemma scanCampaigns_registered:
  "map (\<lambda>p. ID (camp p)) (snd (scanCampaigns tid ms compiles get cs)) =
     map ID (filter (\<lambda>c. Messenger c \<in> set ms \<and> compiles c
                        \<and> (\<forall>mid \<in> set (MediaIDs c). get mid \<noteq> None)) cs)"
proof (induction cs)
  case Nil
  then show ?case by simp
next
  case (Cons c cs)
  obtain ks r where n: "newTenantPipe tid ms (compiles c) get c = (ks, r)"
    by (cases "newTenantPipe tid ms (compiles c) get c")
  obtain ks' ps where s: "scanCampaigns tid ms compiles get cs = (ks', ps)"
    by (cases "scanCampaigns tid ms compiles get cs")
  show ?case
  proof (cases r)
    case (Inl e)
    with n have "\<not> (\<exists>ks tp. newTenantPipe tid ms (compiles c) get c = (ks, Inr tp))" by simp
    then have "\<not> (Messenger c \<in> set ms \<and> compiles c
        \<and> (\<forall>mid \<in> set (MediaIDs c). get mid \<noteq> None))"
      unfolding newTenantPipe_built .
    with n s Inl Cons.IH show ?thesis by simp
  next
    case (Inr tp)
    with n have b: "\<exists>ks tp. newTenantPipe tid ms (compiles c) get c = (ks, Inr tp)" by blast
    then have "Messenger c \<in> set ms \<and> compiles c
        \<and> (\<forall>mid \<in> set (MediaIDs c). get mid \<noteq> None)"
      unfolding newTenantPipe_built .
    moreover from n Inr have "ID (camp tp) = ID c" using newTenantPipe_Inr by blast
    ultimately show ?thesis using n s Inr Cons.IH by simp
  qed
qed

text \<open>
  Claim C6, amended. A campaign whose Messenger name is not registered is marked cancelled
  and no pipe is built for it. When the name is registered and the template does not
  compile, or an attachment cannot be fetched, no pipe is built either, and no status
  update is made. In a tick of the scan every campaign with an unknown Messenger is marked
  cancelled, and the pipes registered are, in order, those of the campaigns whose
  Messenger is registered, whose template compiles and whose attachments are all fetched.
\<close>

theorem unknown_messenger_cancels:
  "(Messenger c \<notin> set ms \<longrightarrow>
      newTenantPipe tid ms cok get c =
        ([UpdateTenantCampaignStatus tid (ID c) CampaignStatusCancelled], Inl UnknownMessenger))
   \<and> (Messenger c \<in> set ms \<longrightarrow>
        \<not> list_ex is_status_update (fst (newTenantPipe tid ms cok get c)))
   \<and> (Messenger c \<in> set ms \<longrightarrow>
        newTenantPipe tid ms False get c = ([], Inl CompileTemplateError))
   \<and> (Messenger c \<in> set ms \<and> (\<exists>mid \<in> set (MediaIDs c). get mid = None) \<longrightarrow>
        (\<exists>ks mid'. newTenantPipe tid ms True get c = (ks, Inl (AttachmentError mid'))
           \<and> get mid' = None \<and> mid' \<in> set (MediaIDs c) \<and> \<not> list_ex is_status_update ks))
   \<and> ((\<exists>ks tp. newTenantPipe tid ms cok get c = (ks, Inr tp))
        \<longleftrightarrow> Messenger c \<in> set ms \<and> cok \<and> (\<forall>mid \<in> set (MediaIDs c). get mid \<noteq> None))
   \<and> (c \<in> set cs \<and> Messenger c \<notin> set ms \<longrightarrow>
        UpdateTenantCampaignStatus tid (ID c) CampaignStatusCancelled
          \<in> set (fst (scanCampaigns tid ms compiles get cs)))
   \<and> (\<forall>tp \<in> set (snd (scanCampaigns tid ms compiles get cs)).
        \<exists>c' \<in> set cs. Messenger c' \<in> set ms \<and> compiles c' \<and> ID (camp tp) = ID c'
          \<and> tenantID tp = tid)
   \<and> map (\<lambda>p. ID (camp p)) (snd (scanCampaigns tid ms compiles get cs)) =
       map ID (filter (\<lambda>c. Messenger c \<in> set ms \<and> compiles c
                          \<and> (\<forall>mid \<in> set (MediaIDs c). get mid \<noteq> None)) cs)"
proof -
  have p1: "Messenger c \<notin> set ms \<longrightarrow>
      newTenantPipe tid ms cok get c =
        ([UpdateTenantCampaignStatus tid (ID c) CampaignStatusCancelled], Inl UnknownMessenger)"
    by (simp add: newTenantPipe_unknown)
  have p2: "Messenger c \<in> set ms \<longrightarrow>
      \<not> list_ex is_status_update (fst (newTenantPipe tid ms cok get c))"
    by (simp add: newTenantPipe_known)
  have p3: "Messenger c \<in> set ms \<longrightarrow>
      newTenantPipe tid ms False get c = ([], Inl CompileTemplateError)"
    by (simp add: newTenantPipe_compile)
  have p4: "Messenger c \<in> set ms \<and> (\<exists>mid \<in> set (MediaIDs c). get mid = None) \<longrightarrow>
      (\<exists>ks mid'. newTenantPipe tid ms True get c = (ks, Inl (AttachmentError mid'))
         \<and> get mid' = None \<and> mid' \<in> set (MediaIDs c) \<and> \<not> list_ex is_status_update ks)"
    using newTenantPipe_attachment [of c ms get tid] by blast
  have p6: "c \<in> set cs \<and> Messenger c \<notin> set ms \<longrightarrow>
      UpdateTenantCampaignStatus tid (ID c) CampaignStatusCancelled
        \<in> set (fst (scanCampaigns tid ms compiles get cs))"
  proof
    assume a: "c \<in> set cs \<and> Messenger c \<notin> set ms"
    then have "fst (newTenantPipe tid ms (compiles c) get c) =
        [UpdateTenantCampaignStatus tid (ID c) CampaignStatusCancelled]"
      by (simp add: newTenantPipe_unknown)
    with scanCampaigns_calls [of c cs tid ms compiles get] a
    show "UpdateTenantCampaignStatus tid (ID c) CampaignStatusCancelled
        \<in> set (fst (scanCampaigns tid ms compiles get cs))"
      by simp
  qed
  have p7: "\<forall>tp \<in> set (snd (scanCampaigns tid ms compiles get cs)).
      \<exists>c' \<in> set cs. Messenger c' \<in> set ms \<and> compiles c' \<and> ID (camp tp) = ID c'
        \<and> tenantID tp = tid"
  proof
    fix tp
    assume "tp \<in> set (snd (scanCampaigns tid ms compiles get cs))"
    then obtain c' ks where c': "c' \<in> set cs"
      and n: "newTenantPipe tid ms (compiles c') get c' = (ks, Inr tp)"
      using scanCampaigns_pipes by blast
    from newTenantPipe_Inr [OF n] c'
    show "\<exists>c' \<in> set cs. Messenger c' \<in> set ms \<and> compiles c' \<and> ID (camp tp) = ID c'
        \<and> tenantID tp = tid"
      by blast
  qed
  show ?thesis
    by (intro conjI) (rule p1 p2 p3 p4 newTenantPipe_built p6 p7 scanCampaigns_registered)+
qed

theorem unknown_messenger_cancels_witness:
  "Messenger example_campaign \<notin> set [''sms'']
   \<and> newTenantPipe 7 [''sms''] True no_attachments example_campaign =
       ([UpdateTenantCampaignStatus 7 4 CampaignStatusCancelled], Inl UnknownMessenger)
   \<and> scanCampaigns 7 [''sms''] (\<lambda>c. True) no_attachments [example_campaign] =
       ([UpdateTenantCampaignStatus 7 4 CampaignStatusCancelled], [])
   \<and> Messenger example_campaign \<in> set [''email'']
   \<and> newTenantPipe 7 [''email''] True no_attachments example_campaign = ([], Inr example_pipe)
   \<and> newTenantPipe 7 [''email''] False no_attachments example_campaign =
       ([], Inl CompileTemplateError)
   \<and> Messenger example_with_media \<in> set [''email'']
   \<and> no_attachments 3 = None
   \<and> newTenantPipe 7 [''email''] True no_attachments example_with_media =
       ([GetAttachment 3], Inl (AttachmentError 3))
   \<and> scanCampaigns 7 [''email''] (\<lambda>c. True) no_attachments
        [example_with_media, example_campaign] = ([GetAttachment 3], [example_pipe])"
  using unknown_messenger_cancels [of example_campaign "[''sms'']" 7 True no_attachments
      "[example_campaign]" "\<lambda>c. True"]
    unknown_messenger_cancels [of example_campaign "[''email'']" 7 True no_attachments
      "[example_campaign]" "\<lambda>c. True"]
    unknown_messenger_cancels [of example_with_media "[''email'']" 7 True no_attachments
      "[example_with_media, example_campaign]" "\<lambda>c. True"]
  by (simp add: newTenantPipe_def example_campaign_def example_with_media_def example_pipe_def
      no_attachments_def)

text \<open>
  A campaign whose Messenger is registered and whose template does not compile: building
  the pipe fails, the scan registers no pipe, and no call is made on the Store, so the
  campaign is not marked cancelled.
\<close>

theorem compile_failure_not_cancelled_counterexample:
  "newTenantPipe 7 [''email''] False no_attachments example_campaign =
     ([], Inl CompileTemplateError)
   \<and> scanCampaigns 7 [''email''] (\<lambda>c. False) no_attachments [example_campaign] = ([], [])"
  by (simp add: newTenantPipe_def example_campaign_def)

section \<open>The tenant configuration\<close>




















section \<open>The wait-group over the life of a pipe\<close>

lemma slidingCheck_frame:
  "pipe (slidingCheck cfg m) = pipe m" "campMsgQ (slidingCheck cfg m) = campMsgQ m"
  "inPipes (slidingCheck cfg m) = inPipes m" "inNextPipes (slidingCheck cfg m) = inNextPipes m"
  "cleaned (slidingCheck cfg m) = cleaned m" "calls (slidingCheck cfg m) = calls m"
  "pushLog (slidingCheck cfg m) = pushLog m" "numMsg (slidingCheck cfg m) = numMsg m"
  by (simp_all add: slidingCheck_def Let_def)

lemma pushSubscriber_frame:
  "inPipes (pushSubscriber cfg f m) = inPipes m"
  "inNextPipes (pushSubscriber cfg f m) = inNextPipes m"
  "cleaned (pushSubscriber cfg f m) = cleaned m" "calls (pushSubscriber cfg f m) = calls m"
  "numMsg (pushSubscriber cfg f m) = numMsg m"
  "pipe (pushSubscriber cfg f m) =
     (if renderErr f then pipe m else (pipe m)\<lparr>wg := wg_Add (wg (pipe m))\<rparr>)"
  "campMsgQ (pushSubscriber cfg f m) =
     (if renderErr f then campMsgQ m else campMsgQ m @ [fsub f])"
  by (simp_all add: pushSubscriber_def Let_def slidingCheck_frame)

lemma pushSubscribers_frame:
  "inPipes (pushSubscribers cfg fs m) = inPipes m
   \<and> inNextPipes (pushSubscribers cfg fs m) = inNextPipes m
   \<and> cleaned (pushSubscribers cfg fs m) = cleaned m
   \<and> calls (pushSubscribers cfg fs m) = calls m
   \<and> numMsg (pushSubscribers cfg fs m) = numMsg m"
  by (induction fs arbitrary: m) (simp_all add: pushSubscriber_frame)





lemma workerFinish_wg: "wg (workerFinish cfg pushErr s tp) = wg tp"
  by (simp add: workerFinish_def Let_def OnError_frame)

text \<open>The two parts, one after the other, are the worker's iteration.\<close>

lemma worker_parts:
  "worker cfg pushErr s st =
     (case workerTake cfg st of
        Inl e \<Rightarrow> Inl e
      | Inr (n, tp, pushed) \<Rightarrow> Inr (n, if pushed then workerFinish cfg pushErr s tp else tp))"
  by (cases st)
    (simp add: worker_def workerTake_def workerFinish_def wg_Done_def Let_def)




lemma step_flags:
  assumes "step cfg ev m = Inr m'"
  shows "(case ev of
           NextPipe batch room \<Rightarrow>
             inNextPipes m \<and> cleaned m' = cleaned m \<and> inPipes m' = inPipes m
             \<and> (batch = Some [] \<longrightarrow> \<not> inNextPipes m')
         | Worker w pushErr \<Rightarrow>
             campMsgQ m \<noteq> [] \<and> inNextPipes m' = inNextPipes m \<and> cleaned m' = cleaned m
             \<and> inPipes m' = inPipes m
         | Finish w \<Rightarrow>
             inNextPipes m' = inNextPipes m \<and> cleaned m' = cleaned m \<and> inPipes m' = inPipes m
             \<and> campMsgQ m' = campMsgQ m \<and> wg (pipe m') = wg (pipe m)
         | StopCampaign \<Rightarrow>
             inNextPipes m' = inNextPipes m \<and> cleaned m' = cleaned m \<and> inPipes m' = inPipes m
             \<and> campMsgQ m' = campMsgQ m \<and> wg (pipe m') = wg (pipe m)
         | Scan \<Rightarrow>
             inNextPipes m' = inNextPipes m \<and> cleaned m' = cleaned m \<and> inPipes m' = inPipes m
             \<and> campMsgQ m' = campMsgQ m \<and> wg (pipe m') = wg (pipe m)
         | Cleanup fetched \<Rightarrow>
             wg_counter (wg (pipe m)) = 0 \<and> cleaned m = 0 \<and> cleaned m' = 1 \<and> \<not> inPipes m'
             \<and> inNextPipes m' = inNextPipes m \<and> campMsgQ m' = campMsgQ m
             \<and> pipe m' = pipe m)"
proof (cases ev)
  case (NextPipe batch room)
  with assms show ?thesis
    by (auto simp add: step_def NextSubscribers_def pushSubscribers_frame
        split: if_splits option.splits sum.splits)
next
  case (Worker w pushErr)
  with assms show ?thesis
    by (auto simp add: step_def split: list.splits sum.splits option.splits)
next
  case (Finish w)
  with assms show ?thesis
    by (auto simp add: step_def workerFinish_wg split: option.splits)
next
  case StopCampaign
  with assms show ?thesis by (auto simp add: step_def Stop_frame split: if_splits)
next
  case Scan
  with assms show ?thesis
    by (auto simp add: step_def scanRead_def getCurrentCampaigns_def split: if_splits)
next
  case (Cleanup fetched)
  with assms show ?thesis by (auto simp add: step_def split: if_splits)
qed











lemma sentinel_never_released:
  "quiescent m \<Longrightarrow> wg_counter (wg (pipe m)) \<noteq> 0 \<Longrightarrow> exec cfg evs m = Inr m' \<Longrightarrow>
   wg (pipe m') = wg (pipe m) \<and> cleaned m' = cleaned m \<and> quiescent m'"
proof (induction evs arbitrary: m)
  case Nil
  then show ?case by simp
next
  case (Cons ev evs)
  then obtain m1 where s: "step cfg ev m = Inr m1" and e: "exec cfg evs m1 = Inr m'"
    by (auto split: sum.splits)
  from step_flags [OF s] Cons.prems(1,2)
  have k: "wg (pipe m1) = wg (pipe m) \<and> cleaned m1 = cleaned m \<and> quiescent m1"
    by (cases ev) (auto simp add: quiescent_def)
  with Cons.prems(2) have "wg_counter (wg (pipe m1)) \<noteq> 0" by simp
  from Cons.IH [OF _ this e] k show ?case by simp
qed




section \<open>The sliding window\<close>

lemma filter_none: "\<forall>t \<in> set xs. \<not> P t \<Longrightarrow> filter P xs = []"
  by (induction xs) simp_all

lemma filter_cong_set: "\<forall>t \<in> set xs. P t = Q t \<Longrightarrow> filter P xs = filter Q xs"
  by (induction xs) simp_all

text \<open>Time passing, with no push.\<close>

lemma window_inv_elapse:
  assumes inv: "window_inv cfg m"
  shows "window_inv cfg (m\<lparr>now := now m + int e\<rparr>)"
proof -
  have *: "inWindow cfg (m\<lparr>now := now m + int e\<rparr>) = inWindow cfg m"
    by (simp add: inWindow_def)
  show ?thesis
  proof (cases "e = 0")
    case True
    with inv show ?thesis by simp
  next
    case False
    then have "0 < int e" by simp
    with inv show ?thesis
      unfolding window_inv_def * by (auto; fastforce)
  qed
qed


lemma inWindow_push:
  "inWindow cfg (m\<lparr>pipe := p, campMsgQ := q, pushLog := pushLog m @ [t]\<rparr>) =
     inWindow cfg m
       @ (if slidingStart m \<le> t \<and> t < slidingStart m + SlidingWindowDuration cfg then [t] else [])"
  by (simp add: inWindow_def)

lemma window_inv_push:
  assumes hs: "hasSliding cfg" and inv: "window_inv cfg m"
  shows "window_inv cfg
     (slidingCheck cfg (m\<lparr>pipe := p, campMsgQ := q, pushLog := pushLog m @ [now m]\<rparr>))"
proof -
  let ?D = "SlidingWindowDuration cfg"
  let ?R = "SlidingWindowRate cfg"
  let ?S = "slidingStart m"
  let ?m1 = "m\<lparr>pipe := p, campMsgQ := q, pushLog := pushLog m @ [now m]\<rparr>"
  from hs have R: "0 < ?R" and D: "0 < ?D" by (simp_all add: hasSliding_def)
  from inv have c0: "0 \<le> slidingCount m" and c1: "slidingCount m < ?R"
    and s: "?S \<le> now m"
    and l: "\<forall>t \<in> set (pushLog m). t \<le> now m \<and> t < ?S + ?D \<and> (?D \<le> now m - ?S \<longrightarrow> t < now m)"
    and n1: "int (length (inWindow cfg m)) \<le> ?R + 1"
    and n2: "now m - ?S < ?D \<longrightarrow> int (length (inWindow cfg m)) \<le> slidingCount m + 1"
    by (simp_all add: window_inv_def)
  show ?thesis
  proof (cases "?D \<le> now m - ?S")
    case True
    let ?m' = "?m1\<lparr>slidingStart := now m, slidingCount := 0\<rparr>"
    have r: "slidingCheck cfg ?m1 = ?m'"
      using True by (simp add: slidingCheck_def)
    from l True have old: "\<forall>t \<in> set (pushLog m). t < now m" by simp
    then have "filter (\<lambda>t. now m \<le> t \<and> t < now m + ?D) (pushLog m) = []"
      by (intro filter_none) auto
    then have w: "inWindow cfg ?m' = [now m]"
      using D by (simp add: inWindow_def)
    have "window_inv cfg ?m'"
      unfolding window_inv_def w using R D old by auto
    with r show ?thesis by simp
  next
    case False
    then have lt: "now m - ?S < ?D" by simp
    with n2 have n: "int (length (inWindow cfg m)) \<le> slidingCount m + 1" by simp
    have w1: "inWindow cfg ?m1 = inWindow cfg m @ [now m]"
      using s lt by (simp add: inWindow_push)
    show ?thesis
    proof (cases "?R \<le> slidingCount m + 1")
      case True
      let ?m' = "?m1\<lparr>slidingCount := 0, now := now m + (?D - (now m - ?S))\<rparr>"
      have r: "slidingCheck cfg ?m1 = ?m'"
        using lt True by (simp add: slidingCheck_def Let_def)
      have w: "inWindow cfg ?m' = inWindow cfg m @ [now m]"
        using w1 by (simp add: inWindow_def)
      have "window_inv cfg ?m'"
        unfolding window_inv_def w using R D l lt s n c1 by auto
      with r show ?thesis by simp
    next
      case False
      let ?m' = "?m1\<lparr>slidingCount := slidingCount m + 1\<rparr>"
      have r: "slidingCheck cfg ?m1 = ?m'"
        using lt False by (simp add: slidingCheck_def Let_def)
      have w: "inWindow cfg ?m' = inWindow cfg m @ [now m]"
        using w1 by (simp add: inWindow_def)
      have "window_inv cfg ?m'"
        unfolding window_inv_def w using R D l lt s n c0 False by auto
      with r show ?thesis by simp
    qed
  qed
qed

lemma window_inv_pushSubscriber:
  assumes hs: "hasSliding cfg" and inv: "window_inv cfg m"
  shows "window_inv cfg (pushSubscriber cfg f m)"
proof -
  let ?m0 = "m\<lparr>now := now m + int (elapsed f)\<rparr>"
  have i0: "window_inv cfg ?m0" using inv by (rule window_inv_elapse)
  show ?thesis
  proof (cases "renderErr f")
    case True
    with i0 show ?thesis by (simp add: pushSubscriber_def)
  next
    case False
    from window_inv_push [OF hs i0, where p = "(pipe ?m0)\<lparr>wg := wg_Add (wg (pipe ?m0))\<rparr>"
        and q = "campMsgQ ?m0 @ [fsub f]"]
    show ?thesis using False hs by (simp add: pushSubscriber_def Let_def)
  qed
qed

lemma window_inv_pushSubscribers:
  "hasSliding cfg \<Longrightarrow> window_inv cfg m \<Longrightarrow> window_inv cfg (pushSubscribers cfg fs m)"
  by (induction fs arbitrary: m) (simp_all add: window_inv_pushSubscriber)

lemma window_inv_NextSubscribers:
  "hasSliding cfg \<Longrightarrow> window_inv cfg m \<Longrightarrow> window_inv cfg (snd (NextSubscribers cfg batch m))"
  by (simp add: NextSubscribers_def window_inv_pushSubscribers split: option.splits)

lemma window_inv_cong:
  "now m' = now m \<Longrightarrow> slidingStart m' = slidingStart m \<Longrightarrow> slidingCount m' = slidingCount m
   \<Longrightarrow> pushLog m' = pushLog m \<Longrightarrow> window_inv cfg m' = window_inv cfg m"
  by (simp add: window_inv_def inWindow_def)

lemma step_window_inv:
  assumes hs: "hasSliding cfg" and inv: "window_inv cfg m" and st: "step cfg ev m = Inr m'"
  shows "window_inv cfg m'"
proof (cases ev)
  case (NextPipe batch room)
  let ?m0 = "m\<lparr>inNextPipes := False\<rparr>"
  have i0: "window_inv cfg ?m0"
    using inv window_inv_cong [of ?m0 m cfg] by simp
  have i1: "window_inv cfg (snd (NextSubscribers cfg batch ?m0))"
    using hs i0 by (rule window_inv_NextSubscribers)
  obtain r m1 where n: "NextSubscribers cfg batch ?m0 = (r, m1)" by (cases "NextSubscribers cfg batch ?m0")
  with i1 have i2: "window_inv cfg m1" by simp
  from st NextPipe have en: "inNextPipes m"
    by (cases "inNextPipes m") (simp_all add: step_def)
  have "now m' = now m1 \<and> slidingStart m' = slidingStart m1
      \<and> slidingCount m' = slidingCount m1 \<and> pushLog m' = pushLog m1"
  proof (cases r)
    case (Inl err)
    with st NextPipe n en show ?thesis by (simp add: step_def)
  next
    case (Inr has)
    with st NextPipe n en show ?thesis
      by (cases has) (auto simp add: step_def split: sum.splits)
  qed
  with i2 window_inv_cong [of m' m1 cfg] show ?thesis by simp
next
  case (Worker w pushErr)
  with st have "now m' = now m \<and> slidingStart m' = slidingStart m
      \<and> slidingCount m' = slidingCount m \<and> pushLog m' = pushLog m"
    by (auto simp add: step_def split: list.splits sum.splits option.splits)
  with inv window_inv_cong [of m' m cfg] show ?thesis by simp
next
  case (Finish w)
  with st have "now m' = now m \<and> slidingStart m' = slidingStart m
      \<and> slidingCount m' = slidingCount m \<and> pushLog m' = pushLog m"
    by (auto simp add: step_def split: option.splits)
  with inv window_inv_cong [of m' m cfg] show ?thesis by simp
next
  case StopCampaign
  with st have "now m' = now m \<and> slidingStart m' = slidingStart m
      \<and> slidingCount m' = slidingCount m \<and> pushLog m' = pushLog m"
    by (auto simp add: step_def)
  with inv window_inv_cong [of m' m cfg] show ?thesis by simp
next
  case Scan
  with st have "now m' = now m \<and> slidingStart m' = slidingStart m
      \<and> slidingCount m' = slidingCount m \<and> pushLog m' = pushLog m"
    by (auto simp add: step_def scanRead_def getCurrentCampaigns_def)
  with inv window_inv_cong [of m' m cfg] show ?thesis by simp
next
  case (Cleanup fetched)
  with st have "now m' = now m \<and> slidingStart m' = slidingStart m
      \<and> slidingCount m' = slidingCount m \<and> pushLog m' = pushLog m"
    by (auto simp add: step_def split: if_splits)
  with inv window_inv_cong [of m' m cfg] show ?thesis by simp
qed

lemma exec_window_inv:
  "hasSliding cfg \<Longrightarrow> window_inv cfg m \<Longrightarrow> exec cfg evs m = Inr m' \<Longrightarrow> window_inv cfg m'"
proof (induction evs arbitrary: m)
  case Nil
  then show ?case by simp
next
  case (Cons ev evs)
  then obtain m1 where s: "step cfg ev m = Inr m1" and e: "exec cfg evs m1 = Inr m'"
    by (auto split: sum.splits)
  from Cons.IH [OF Cons.prems(1) step_window_inv [OF Cons.prems(1,2) s] e] show ?case .
qed

lemma started_window_inv:
  "0 < SlidingWindowRate cfg \<Longrightarrow> start \<le> clock \<Longrightarrow>
   window_inv cfg (started tp room 0 start clock nm)"
  by (simp add: window_inv_def inWindow_def started_def)

text \<open>
  Claim C7, amended. With the sliding window switched on, a ceiling \<open>R\<close> above zero and a
  duration \<open>D\<close> of more than one second: after a push, when \<open>D\<close> has passed since the
  window's start the window restarts at the clock and the count at zero; otherwise the
  count goes up by one, and when it reaches \<open>R\<close> the producer sleeps until the end of
  the window and the count goes back to zero. So after every batch, and after every run
  of events of the instance, the count is below \<open>R\<close>, every push lies before the end
  of the window that is open, and at most \<open>R + 1\<close> pushes lie inside it: the one that
  opened it, which is not counted, and \<open>R\<close> after it.
\<close>

theorem sliding_window_throttle:
  assumes hs: "hasSliding cfg" and inv: "window_inv cfg m"
  shows "(SlidingWindowDuration cfg \<le> now m - slidingStart m \<longrightarrow>
            slidingCheck cfg m = m\<lparr>slidingStart := now m, slidingCount := 0\<rparr>)
       \<and> (now m - slidingStart m < SlidingWindowDuration cfg
            \<and> SlidingWindowRate cfg \<le> slidingCount m + 1 \<longrightarrow>
            slidingCheck cfg m =
              m\<lparr>slidingCount := 0, now := slidingStart m + SlidingWindowDuration cfg\<rparr>)
       \<and> (now m - slidingStart m < SlidingWindowDuration cfg
            \<and> slidingCount m + 1 < SlidingWindowRate cfg \<longrightarrow>
            slidingCheck cfg m = m\<lparr>slidingCount := slidingCount m + 1\<rparr>)
       \<and> window_inv cfg (snd (NextSubscribers cfg batch m))
       \<and> slidingCount (snd (NextSubscribers cfg batch m)) < SlidingWindowRate cfg
       \<and> int (length (inWindow cfg (snd (NextSubscribers cfg batch m))))
            \<le> SlidingWindowRate cfg + 1
       \<and> (\<forall>t \<in> set (pushLog (snd (NextSubscribers cfg batch m))).
            t < slidingStart (snd (NextSubscribers cfg batch m)) + SlidingWindowDuration cfg)
       \<and> (\<forall>evs m'. exec cfg evs m = Inr m' \<longrightarrow>
            slidingCount m' < SlidingWindowRate cfg
            \<and> int (length (inWindow cfg m')) \<le> SlidingWindowRate cfg + 1
            \<and> (\<forall>t \<in> set (pushLog m'). t < slidingStart m' + SlidingWindowDuration cfg))"
proof -
  have a: "SlidingWindowDuration cfg \<le> now m - slidingStart m \<longrightarrow>
      slidingCheck cfg m = m\<lparr>slidingStart := now m, slidingCount := 0\<rparr>"
    by (simp add: slidingCheck_def)
  have b: "now m - slidingStart m < SlidingWindowDuration cfg
      \<and> SlidingWindowRate cfg \<le> slidingCount m + 1 \<longrightarrow>
      slidingCheck cfg m =
        m\<lparr>slidingCount := 0, now := slidingStart m + SlidingWindowDuration cfg\<rparr>"
    by (simp add: slidingCheck_def Let_def)
  have c: "now m - slidingStart m < SlidingWindowDuration cfg
      \<and> slidingCount m + 1 < SlidingWindowRate cfg \<longrightarrow>
      slidingCheck cfg m = m\<lparr>slidingCount := slidingCount m + 1\<rparr>"
    by (simp add: slidingCheck_def Let_def)
  have i: "window_inv cfg (snd (NextSubscribers cfg batch m))"
    using hs inv by (rule window_inv_NextSubscribers)
  then have d: "slidingCount (snd (NextSubscribers cfg batch m)) < SlidingWindowRate cfg"
    and e: "int (length (inWindow cfg (snd (NextSubscribers cfg batch m))))
        \<le> SlidingWindowRate cfg + 1"
    and f: "\<forall>t \<in> set (pushLog (snd (NextSubscribers cfg batch m))).
        t < slidingStart (snd (NextSubscribers cfg batch m)) + SlidingWindowDuration cfg"
    by (simp_all add: window_inv_def)
  have g: "\<forall>evs m'. exec cfg evs m = Inr m' \<longrightarrow>
      slidingCount m' < SlidingWindowRate cfg
      \<and> int (length (inWindow cfg m')) \<le> SlidingWindowRate cfg + 1
      \<and> (\<forall>t \<in> set (pushLog m'). t < slidingStart m' + SlidingWindowDuration cfg)"
  proof (intro allI impI)
    fix evs m'
    assume "exec cfg evs m = Inr m'"
    from exec_window_inv [OF hs inv this]
    show "slidingCount m' < SlidingWindowRate cfg
      \<and> int (length (inWindow cfg m')) \<le> SlidingWindowRate cfg + 1
      \<and> (\<forall>t \<in> set (pushLog m'). t < slidingStart m' + SlidingWindowDuration cfg)"
      by (simp add: window_inv_def)
  qed
  show ?thesis
    by (intro conjI) (rule a b c i d e f g)+
qed


theorem sliding_window_throttle_witness:
  "hasSliding example_cfg \<and> window_inv example_cfg (started example_pipe True 0 0 0 idle_workers)
   \<and> pushLog (snd (NextSubscribers example_cfg
        (Some [example_fetched, example_fetched, example_fetched])
        (started example_pipe True 0 0 0 idle_workers))) = [0, 0, 10000000000]
   \<and> now (snd (NextSubscribers example_cfg
        (Some [example_fetched, example_fetched, example_fetched])
        (started example_pipe True 0 0 0 idle_workers))) = 10000000000
   \<and> slidingStart (snd (NextSubscribers example_cfg
        (Some [example_fetched, example_fetched, example_fetched])
        (started example_pipe True 0 0 0 idle_workers))) = 10000000000
   \<and> slidingCount (snd (NextSubscribers example_cfg
        (Some [example_fetched, example_fetched, example_fetched])
        (started example_pipe True 0 0 0 idle_workers))) = 0
   \<and> inWindow example_cfg (snd (NextSubscribers example_cfg
        (Some [example_fetched, example_fetched, example_fetched])
        (started example_pipe True 0 0 0 idle_workers))) = [10000000000]"
  using sliding_window_throttle [of example_cfg "started example_pipe True 0 0 0 idle_workers"
      "Some [example_fetched, example_fetched, example_fetched]"]
  by (simp add: example_cfg_def example_config_def example_fetched_def started_def idle_workers_def window_inv_def inWindow_def
      hasSliding_def NextSubscribers_def pushSubscriber_def slidingCheck_def Let_def
      Config.defs TenantConfig.defs)

text \<open>
  With a window of exactly one second and a ceiling of one, three messages are pushed at
  the same instant and the producer never sleeps. With the window of ten seconds and the
  ceiling of two of \<open>example_cfg\<close>, three pushes lie inside one window.
\<close>

theorem short_window_unthrottled_counterexample:
  "SlidingWindow (example_cfg\<lparr>SlidingWindowDuration := 1000000000, SlidingWindowRate := 1\<rparr>)
   \<and> pushLog (snd (NextSubscribers
        (example_cfg\<lparr>SlidingWindowDuration := 1000000000, SlidingWindowRate := 1\<rparr>)
        (Some [example_fetched, example_fetched, example_fetched])
        (started example_pipe True 0 0 0 idle_workers))) = [0, 0, 0]
   \<and> now (snd (NextSubscribers
        (example_cfg\<lparr>SlidingWindowDuration := 1000000000, SlidingWindowRate := 1\<rparr>)
        (Some [example_fetched, example_fetched, example_fetched])
        (started example_pipe True 0 0 0 idle_workers))) = 0
   \<and> SlidingWindowRate example_cfg = 2
   \<and> inWindow example_cfg (snd (NextSubscribers example_cfg
        (Some [example_fetched, example_fetched, example_fetched, example_fetched,
               example_fetched])
        (started example_pipe True 0 0 0 idle_workers))) = [10000000000, 10000000000, 10000000000]"
  by (simp add: example_cfg_def example_config_def example_fetched_def started_def idle_workers_def inWindow_def
      hasSliding_def NextSubscribers_def pushSubscriber_def slidingCheck_def Let_def
      Config.defs TenantConfig.defs)

text \<open>
  With a duration of one second or less no batch touches the window or sleeps, whatever
  the ceiling: the clock moves on only by the time the subscribers take.
\<close>

lemma short_window_no_sleep:
  "SlidingWindowDuration cfg \<le> 1000000000 \<Longrightarrow>
   slidingCount (pushSubscribers cfg fs m) = slidingCount m
   \<and> slidingStart (pushSubscribers cfg fs m) = slidingStart m
   \<and> now (pushSubscribers cfg fs m) = now m + int (sum_list (map elapsed fs))"
  by (induction fs arbitrary: m) (simp_all add: pushSubscriber_def hasSliding_def Let_def)

end
